theory Spec2Isabelle
  imports Main "HOL-Library.Product_Lexorder" "HOL-Library.Sublist"
begin

section \<open>Exceptions\<close>

text \<open>
  Every exception that the script can raise is a value. \<open>HTTPError\<close> is what
  \<open>response.raise_for_status()\<close> raises; the others are raised by the Python
  runtime or by the standard library.
\<close>

datatype error =
    HTTPError
  | ValueError
  | UnboundLocalError
  | OverflowError
  | IllegalMonthError
  | KeyError
  | AttributeError

section \<open>\<open>datetime.datetime\<close>\<close>

text \<open>
  A naive \<open>datetime\<close> object: the seven attributes that Python stores and compares.
\<close>

record datetime =
  year :: nat
  month :: nat
  day :: nat
  hour :: nat
  minute :: nat
  second :: nat
  microsecond :: nat

text \<open>
  Python compares two naive datetimes as the tuples
  \<open>(year, month, day, hour, minute, second, microsecond)\<close>, lexicographically.
\<close>

definition dt_key :: "datetime \<Rightarrow> nat \<times> nat \<times> nat \<times> nat \<times> nat \<times> nat \<times> nat" where
  "dt_key d = (year d, month d, day d, hour d, minute d, second d, microsecond d)"

definition dt_le :: "datetime \<Rightarrow> datetime \<Rightarrow> bool" where
  "dt_le a b \<longleftrightarrow> dt_key a \<le> dt_key b"

definition dt_lt :: "datetime \<Rightarrow> datetime \<Rightarrow> bool" where
  "dt_lt a b \<longleftrightarrow> dt_key a < dt_key b"

subsection \<open>The calendar\<close>

text \<open>\<open>calendar.isleap\<close>, \<open>calendar.mdays\<close> and the second component of \<open>calendar.monthrange\<close>.\<close>

definition isleap :: "nat \<Rightarrow> bool" where
  "isleap y \<longleftrightarrow> y mod 4 = 0 \<and> (y mod 100 \<noteq> 0 \<or> y mod 400 = 0)"

definition mdays :: "nat list" where
  "mdays = [0, 31, 28, 31, 30, 31, 30, 31, 31, 30, 31, 30, 31]"

definition days_in_month :: "nat \<Rightarrow> nat \<Rightarrow> nat" where
  "days_in_month y m = mdays ! m + (if m = 2 \<and> isleap y then 1 else 0)"

definition monthrange_ndays :: "nat \<Rightarrow> nat \<Rightarrow> error + nat" where
  "monthrange_ndays y m =
     (if \<not> (1 \<le> m \<and> m \<le> 12) then Inl IllegalMonthError else Inr (days_in_month y m))"

text \<open>
  The checks of the \<open>datetime\<close> constructor (\<open>MINYEAR = 1\<close>, \<open>MAXYEAR = 9999\<close>): every
  datetime object that exists in a run satisfies them.
\<close>

definition valid_datetime :: "datetime \<Rightarrow> bool" where
  "valid_datetime d \<longleftrightarrow>
     1 \<le> year d \<and> year d \<le> 9999 \<and> 1 \<le> month d \<and> month d \<le> 12 \<and>
     1 \<le> day d \<and> day d \<le> days_in_month (year d) (month d) \<and>
     hour d \<le> 23 \<and> minute d \<le> 59 \<and> second d \<le> 59 \<and> microsecond d \<le> 999999"

text \<open>
  \<open>d.replace(day=dd, hour=H, minute=M, second=S, microsecond=us)\<close>, the day
  being optional: the constructor is called on the new fields and raises
  \<open>ValueError\<close> when they are not a date and a time.
\<close>

definition dt_replace :: "datetime \<Rightarrow> nat option \<Rightarrow> nat \<Rightarrow> nat \<Rightarrow> nat \<Rightarrow> nat \<Rightarrow> error + datetime" where
  "dt_replace d dd H M S us =
     (let r = d\<lparr>day := (case dd of None \<Rightarrow> day d | Some x \<Rightarrow> x),
                 hour := H, minute := M, second := S, microsecond := us\<rparr>
      in if valid_datetime r then Inr r else Inl ValueError)"

text \<open>
  \<open>d + datetime.timedelta(days=n)\<close> keeps the time of day and moves the date
  \<open>n\<close> days forward; a result after 9999-12-31 raises \<open>OverflowError\<close>. The date
  is moved one calendar day at a time.
\<close>

definition next_day :: "datetime \<Rightarrow> datetime" where
  "next_day d =
     (if day d < days_in_month (year d) (month d) then d\<lparr>day := day d + 1\<rparr>
      else if month d < 12 then d\<lparr>month := month d + 1, day := 1\<rparr>
      else d\<lparr>year := year d + 1, month := 1, day := 1\<rparr>)"

fun days_later :: "nat \<Rightarrow> datetime \<Rightarrow> datetime" where
  "days_later 0 d = d"
| "days_later (Suc n) d = days_later n (next_day d)"

definition add_days :: "datetime \<Rightarrow> nat \<Rightarrow> error + datetime" where
  "add_days d n = (let r = days_later n d in if year r \<le> 9999 then Inr r else Inl OverflowError)"

text \<open>
  The proleptic Gregorian ordinal of a date, as \<open>date.toordinal\<close> computes it
  (0001-01-01 is day 1).
\<close>

definition days_before_year :: "nat \<Rightarrow> nat" where
  "days_before_year y = (y - 1) * 365 + (y - 1) div 4 - (y - 1) div 100 + (y - 1) div 400"

definition days_before_month :: "nat \<Rightarrow> nat \<Rightarrow> nat" where
  "days_before_month y m = (\<Sum>k \<leftarrow> [1..<m]. days_in_month y k)"

definition toordinal :: "datetime \<Rightarrow> nat" where
  "toordinal d = days_before_year (year d) + days_before_month (year d) (month d) + day d"

subsection \<open>\<open>datetime.strptime(s, "%Y-%m-%dT%H:%M:%SZ")\<close>\<close>

text \<open>
  The format compiles to a regular expression that is matched ignoring case:
  four digits, \<open>-\<close>, a month, \<open>-\<close>, a day, \<open>T\<close>, an hour, \<open>:\<close>, a minute,
  \<open>:\<close>, a second, \<open>Z\<close>, and nothing after it. The directives other than \<open>%Y\<close>
  accept one or two digits in their range (\<open>%d\<close> also a blank and a digit, \<open>%S\<close>
  up to 61). A field holds digits and blanks only, so it is the text before the next
  separator. The constructor then rejects year 0, a day that the month does not have and
  a second above 59. Every failure is a \<open>ValueError\<close>.
\<close>

definition is_digit :: "char \<Rightarrow> bool" where
  "is_digit c \<longleftrightarrow> c \<in> set ''0123456789''"

definition digit_val :: "char \<Rightarrow> nat" where
  "digit_val c = of_char c - 48"

definition nat_of_digits :: "string \<Rightarrow> nat" where
  "nat_of_digits s = foldl (\<lambda>n c. 10 * n + digit_val c) 0 s"

fun split_at :: "(char \<Rightarrow> bool) \<Rightarrow> string \<Rightarrow> (string \<times> string) option" where
  "split_at sep [] = None"
| "split_at sep (c # cs) =
     (if sep c then Some ([], cs)
      else case split_at sep cs of None \<Rightarrow> None | Some (f, r) \<Rightarrow> Some (c # f, r))"

definition field_Y :: "string \<Rightarrow> nat option" where
  "field_Y f = (if length f = 4 \<and> list_all is_digit f then Some (nat_of_digits f) else None)"

definition field_2 :: "nat \<Rightarrow> nat \<Rightarrow> string \<Rightarrow> nat option" where
  "field_2 lo hi f =
     (if (length f = 1 \<or> length f = 2) \<and> list_all is_digit f \<and>
         lo \<le> nat_of_digits f \<and> nat_of_digits f \<le> hi
      then Some (nat_of_digits f) else None)"

definition field_d :: "string \<Rightarrow> nat option" where
  "field_d f =
     (case f of
        [b, c] \<Rightarrow> if b = CHR '' '' then (if is_digit c \<and> c \<noteq> CHR ''0'' then Some (digit_val c) else None)
                  else field_2 1 31 f
      | _ \<Rightarrow> field_2 1 31 f)"

definition strptime :: "string \<Rightarrow> error + datetime" where
  "strptime s =
     (case split_at (\<lambda>c. c = CHR ''-'') s of None \<Rightarrow> Inl ValueError | Some (fY, r1) \<Rightarrow>
     (case split_at (\<lambda>c. c = CHR ''-'') r1 of None \<Rightarrow> Inl ValueError | Some (fm, r2) \<Rightarrow>
     (case split_at (\<lambda>c. c = CHR ''T'' \<or> c = CHR ''t'') r2 of None \<Rightarrow> Inl ValueError | Some (fd, r3) \<Rightarrow>
     (case split_at (\<lambda>c. c = CHR '':'') r3 of None \<Rightarrow> Inl ValueError | Some (fH, r4) \<Rightarrow>
     (case split_at (\<lambda>c. c = CHR '':'') r4 of None \<Rightarrow> Inl ValueError | Some (fM, r5) \<Rightarrow>
     (case split_at (\<lambda>c. c = CHR ''Z'' \<or> c = CHR ''z'') r5 of None \<Rightarrow> Inl ValueError | Some (fS, r6) \<Rightarrow>
     (case (field_Y fY, field_2 1 12 fm, field_d fd, field_2 0 23 fH, field_2 0 59 fM, field_2 0 61 fS) of
        (Some y, Some m, Some d, Some H, Some M, Some S) \<Rightarrow>
          (let t = \<lparr>year = y, month = m, day = d, hour = H, minute = M, second = S, microsecond = 0\<rparr>
           in if r6 = [] \<and> valid_datetime t then Inr t else Inl ValueError)
      | _ \<Rightarrow> Inl ValueError)))))))"

section \<open>Python strings\<close>

text \<open>
  A \<open>str\<close> is a sequence of code points, the numbers below \<open>0x110000\<close>: a title or a
  comment may hold any of them. A text that the source writes out is given with \<open>py\<close>.
\<close>

type_synonym pystr = "nat list"

definition code_point :: "char \<Rightarrow> nat" where
  "code_point c = of_char c"

definition py :: "string \<Rightarrow> pystr" where
  "py s = map code_point s"

definition valid_str :: "pystr \<Rightarrow> bool" where
  "valid_str s \<longleftrightarrow> list_all (\<lambda>c. c < 1114112) s"

section \<open>The data of the platform's API\<close>

text \<open>
  A pull request and a comment as the API returns them: the fields that the script reads.
  \<open>merged_at\<close> is the timestamp that the API writes, a text of ASCII characters, and
  \<open>None\<close> for a pull request that was closed without a merge (JSON \<open>null\<close>).
\<close>

record pull_request =
  number :: int
  title :: pystr
  user_login :: pystr
  merged_at :: "string option"
  html_url :: pystr

record comment =
  comment_user_login :: pystr
  body :: pystr

section \<open>\<open>get_merged_prs\<close>\<close>

text \<open>
  The local variables of \<open>get_merged_prs\<close>. The variable \<open>merged_at\<close> is assigned
  inside the loop only: \<open>None\<close> is "not yet bound". What the function prints in verbose
  mode has no effect on what it does and is given apart, with the report.
\<close>

record fetch_state =
  prs :: "pull_request list"
  page :: nat
  merged_at_var :: "datetime option"
  shouldContinue :: bool

text \<open>Python's truth value of \<open>pr.get("merged_at")\<close>: \<open>None\<close> and the empty string are false.\<close>

definition truthy :: "string option \<Rightarrow> bool" where
  "truthy v \<longleftrightarrow> (case v of None \<Rightarrow> False | Some s \<Rightarrow> s \<noteq> [])"

text \<open>The body of \<open>for pr in data\<close> (lines 38 to 51).\<close>

definition for_pr :: "datetime \<Rightarrow> datetime \<Rightarrow> pull_request \<Rightarrow> fetch_state \<Rightarrow> error + fetch_state" where
  "for_pr start_date end_date pr st =
     (case (if truthy (merged_at pr) then
              (case strptime (the (merged_at pr)) of
                 Inl e \<Rightarrow> Inl e
               | Inr t \<Rightarrow>
                   Inr (if dt_le start_date t \<and> dt_le t end_date
                        then st\<lparr>prs := prs st @ [pr], merged_at_var := Some t\<rparr>
                        else st\<lparr>merged_at_var := Some t\<rparr>))
            else Inr st) of
        Inl e \<Rightarrow> Inl e
      | Inr st1 \<Rightarrow>
          (case merged_at_var st1 of
             None \<Rightarrow> Inl UnboundLocalError
           | Some t \<Rightarrow> Inr (if dt_lt t start_date then st1\<lparr>shouldContinue := False\<rparr> else st1)))"

fun for_data :: "datetime \<Rightarrow> datetime \<Rightarrow> pull_request list \<Rightarrow> fetch_state \<Rightarrow> error + fetch_state" where
  "for_data start_date end_date [] st = Inr st"
| "for_data start_date end_date (pr # data) st =
     (case for_pr start_date end_date pr st of
        Inl e \<Rightarrow> Inl e
      | Inr st' \<Rightarrow> for_data start_date end_date data st')"

text \<open>
  The \<open>while shouldContinue\<close> loop. The API is a function from the page number to the
  response: \<open>Inl HTTPError\<close> when \<open>raise_for_status\<close> raises, the list of items
  otherwise. Nothing bounds the number of pages, so the loop takes fuel, one unit for
  each test of the loop condition. The result is the list of the pages requested and,
  unless the fuel ran out, what the function did: raise or return.
\<close>

fun fetch_loop ::
  "nat \<Rightarrow> (nat \<Rightarrow> error + pull_request list) \<Rightarrow> datetime \<Rightarrow> datetime \<Rightarrow> fetch_state
    \<Rightarrow> nat list \<times> (error + pull_request list) option" where
  "fetch_loop 0 api start_date end_date st = ([], None)"
| "fetch_loop (Suc fuel) api start_date end_date st =
     (if \<not> shouldContinue st then ([], Some (Inr (prs st)))
      else (case api (page st) of
        Inl e \<Rightarrow> ([page st], Some (Inl e))
      | Inr data \<Rightarrow>
          if data = [] then ([page st], Some (Inr (prs st)))
          else (case for_data start_date end_date data st of
            Inl e \<Rightarrow> ([page st], Some (Inl e))
          | Inr st' \<Rightarrow>
              (case fetch_loop fuel api start_date end_date (st'\<lparr>page := page st' + 1\<rparr>) of
                 (reqs, res) \<Rightarrow> (page st # reqs, res)))))"

definition get_merged_prs ::
  "nat \<Rightarrow> (nat \<Rightarrow> error + pull_request list) \<Rightarrow> datetime \<Rightarrow> datetime
    \<Rightarrow> nat list \<times> (error + pull_request list) option" where
  "get_merged_prs fuel api start_date end_date =
     fetch_loop fuel api start_date end_date
       \<lparr>prs = [], page = 1, merged_at_var = None, shouldContinue = True\<rparr>"

section \<open>\<open>calculate_enddate_if_needed\<close>\<close>

definition calculate_enddate_if_needed :: "datetime \<Rightarrow> datetime option \<Rightarrow> error + datetime" where
  "calculate_enddate_if_needed start_date end_date =
     (case end_date of
        None \<Rightarrow>
          if day start_date = 1 then
            (case monthrange_ndays (year start_date) (month start_date) of
               Inl e \<Rightarrow> Inl e
             | Inr last_day \<Rightarrow> dt_replace start_date (Some last_day) 23 59 59 999999)
          else
            (case add_days start_date 30 of
               Inl e \<Rightarrow> Inl e
             | Inr d \<Rightarrow> dt_replace d None 23 59 59 999999)
      | Some e \<Rightarrow> Inr e)"

section \<open>\<open>main\<close>: scanning the comments\<close>

text \<open>
  A Python value that the report holds, and a dictionary as the list of its items in
  insertion order.
\<close>

datatype pyval = PNone | PInt int | PStr pystr

type_synonym pydict = "(string \<times> pyval) list"

text \<open>\<open>sub in s\<close> on strings: \<open>sub\<close> occurs in \<open>s\<close> at some position.\<close>

fun py_in :: "'a list \<Rightarrow> 'a list \<Rightarrow> bool" where
  "py_in sub [] = (sub = [])"
| "py_in sub (c # cs) = (prefix sub (c # cs) \<or> py_in sub cs)"

text \<open>The dictionary appended at lines 104 to 113.\<close>

definition force_merge_record :: "pystr \<Rightarrow> pull_request \<Rightarrow> comment \<Rightarrow> pydict" where
  "force_merge_record repo pr c =
     [(''repo'', PStr repo),
      (''pr_number'', PInt (number pr)),
      (''title'', PStr (title pr)),
      (''author'', PStr (user_login pr)),
      (''commenter'', PStr (comment_user_login c)),
      (''comment_body'', PStr (body c)),
      (''merged_at'', (case merged_at pr of None \<Rightarrow> PNone | Some s \<Rightarrow> PStr (py s))),
      (''url'', PStr (html_url pr))]"

text \<open>\<open>for comment in comments\<close> (lines 102 to 113), on the list \<open>force_merged_prs\<close>.\<close>

fun for_comments :: "pystr \<Rightarrow> pull_request \<Rightarrow> comment list \<Rightarrow> pydict list \<Rightarrow> pydict list" where
  "for_comments repo pr [] force_merged_prs = force_merged_prs"
| "for_comments repo pr (c # comments) force_merged_prs =
     for_comments repo pr comments
       (if py_in (py ''FORCE_MERGE'') (body c)
        then force_merged_prs @ [force_merge_record repo pr c]
        else force_merged_prs)"

text \<open>
  The variables that the loop \<open>for pr in merged_prs\<close> leaves behind: the list of
  records and \<open>pr_merged_at\<close>, which is bound by the first iteration (\<open>None\<close> is
  "not yet bound") to the \<open>merged_at\<close> of the pull request of the iteration.
\<close>

record scan_state =
  force_merged_prs :: "pydict list"
  pr_merged_at :: "string option option"

text \<open>
  \<open>for pr in merged_prs\<close> (lines 96 to 113). \<open>get_comments\<close> is the comments
  endpoint as a function of the pull request's number. The first component of the result
  is the list of the numbers for which the comments were requested.
\<close>

fun for_merged_prs ::
  "(int \<Rightarrow> error + comment list) \<Rightarrow> pystr \<Rightarrow> pull_request list \<Rightarrow> scan_state
    \<Rightarrow> int list \<times> (error + scan_state)" where
  "for_merged_prs get_comments repo [] st = ([], Inr st)"
| "for_merged_prs get_comments repo (pr # merged_prs) st =
     (case get_comments (number pr) of
        Inl e \<Rightarrow> ([number pr], Inl e)
      | Inr comments \<Rightarrow>
          (case for_merged_prs get_comments repo merged_prs
                  \<lparr>force_merged_prs = for_comments repo pr comments (force_merged_prs st),
                   pr_merged_at = Some (merged_at pr)\<rparr> of
             (reqs, res) \<Rightarrow> (number pr # reqs, res)))"

text \<open>
  Lines 86 to 113 of \<open>main\<close>: the pages requested, the pull requests whose comments
  were requested and, unless the fuel ran out, the exception or the state before the
  report.
\<close>

definition collect ::
  "nat \<Rightarrow> (nat \<Rightarrow> error + pull_request list) \<Rightarrow> (int \<Rightarrow> error + comment list) \<Rightarrow> pystr
    \<Rightarrow> datetime \<Rightarrow> datetime option \<Rightarrow> nat list \<times> int list \<times> (error + scan_state) option" where
  "collect fuel api get_comments repo start_date end_date =
     (case calculate_enddate_if_needed start_date end_date of
        Inl e \<Rightarrow> ([], [], Some (Inl e))
      | Inr end_date' \<Rightarrow>
          (case get_merged_prs fuel api start_date end_date' of
             (pages, None) \<Rightarrow> (pages, [], None)
           | (pages, Some (Inl e)) \<Rightarrow> (pages, [], Some (Inl e))
           | (pages, Some (Inr merged_prs)) \<Rightarrow>
               (case for_merged_prs get_comments repo merged_prs
                       \<lparr>force_merged_prs = [], pr_merged_at = None\<rparr> of
                  (reqs, res) \<Rightarrow> (pages, reqs, Some res))))"

section \<open>\<open>main\<close>: what it prints\<close>

subsection \<open>Text mode\<close>

definition newline :: nat where
  "newline = 10"

text \<open>\<open>print(s)\<close> writes \<open>s\<close> and a newline to the standard output.\<close>

definition print :: "pystr \<Rightarrow> pystr" where
  "print s = s @ [newline]"

text \<open>\<open>str\<close> of an integer, and the text that an f-string puts for a value.\<close>

definition digit_char :: "nat \<Rightarrow> char" where
  "digit_char n = ''0123456789'' ! n"

fun str_nat :: "nat \<Rightarrow> string" where
  "str_nat n = (if n < 10 then [digit_char n] else str_nat (n div 10) @ [digit_char (n mod 10)])"

definition str_int :: "int \<Rightarrow> string" where
  "str_int i = (if i < 0 then CHR ''-'' # str_nat (nat (- i)) else str_nat (nat i))"

definition format_val :: "pyval \<Rightarrow> pystr" where
  "format_val v = (case v of PNone \<Rightarrow> py ''None'' | PInt i \<Rightarrow> py (str_int i) | PStr s \<Rightarrow> s)"

definition getitem :: "pydict \<Rightarrow> string \<Rightarrow> error + pyval" where
  "getitem d k = (case map_of d k of None \<Rightarrow> Inl KeyError | Some v \<Rightarrow> Inr v)"

text \<open>\<open>s.split("T")[0]\<close>: the text before the first \<open>T\<close>, all of \<open>s\<close> if it has none.\<close>

definition split_T_0 :: "string \<Rightarrow> string" where
  "split_T_0 s = takeWhile (\<lambda>c. c \<noteq> CHR ''T'') s"

text \<open>
  One iteration of the loop at lines 119 to 123: what it prints. The date is computed from
  the variable \<open>pr_merged_at\<close> of \<open>main\<close>, the record \<open>pr\<close> gives the rest.
\<close>

definition text_block :: "string option option \<Rightarrow> pydict \<Rightarrow> error + pystr" where
  "text_block pr_merged_at_var pr =
     (case pr_merged_at_var of
        None \<Rightarrow> Inl UnboundLocalError
      | Some None \<Rightarrow> Inl AttributeError
      | Some (Some m) \<Rightarrow>
          (let formatted_pr_merged_date = py (split_T_0 m) in
           case (getitem pr ''repo'', getitem pr ''pr_number'', getitem pr ''author'',
                 getitem pr ''title'', getitem pr ''commenter'', getitem pr ''comment_body'',
                 getitem pr ''url'') of
             (Inr r, Inr n, Inr a, Inr t, Inr c, Inr b, Inr u) \<Rightarrow>
               Inr (print (format_val r @ py ''#'' @ format_val n @ py '': '' @ format_val a
                           @ py '' - '' @ format_val t @ py '' @ '' @ formatted_pr_merged_date)
                    @ print (py ''Comment by '' @ format_val c @ py '': '' @ format_val b)
                    @ print (py ''URL: '' @ format_val u @ [newline]))
           | _ \<Rightarrow> Inl KeyError))"

fun text_blocks :: "string option option \<Rightarrow> pydict list \<Rightarrow> error + pystr" where
  "text_blocks v [] = Inr []"
| "text_blocks v (pr # rest) =
     (case text_block v pr of
        Inl e \<Rightarrow> Inl e
      | Inr out \<Rightarrow> (case text_blocks v rest of Inl e \<Rightarrow> Inl e | Inr out' \<Rightarrow> Inr (out @ out')))"

subsection \<open>JSON mode: \<open>json.dumps(obj, indent=4)\<close>\<close>

text \<open>
  The encoder with its defaults and an indent of four. \<open>ensure_ascii\<close> escapes the
  quote, the backslash and every code point outside the range from the blank to the tilde:
  the control characters that have a short escape with it, a code point below
  \<open>0x10000\<close> as \<open>\u\<close> and four hexadecimal digits, a code point from \<open>0x10000\<close> on as the
  two surrogates of its UTF-16 form, each of them so. The items are separated by a comma
  and a new line, a key from its value by a colon and a blank, an empty list is \<open>[]\<close>
  and an empty dictionary \<open>{}\<close>.
\<close>

definition quote :: nat where
  "quote = 34"

definition backslash :: nat where
  "backslash = 92"

definition hex_digit :: "nat \<Rightarrow> nat" where
  "hex_digit n = py ''0123456789abcdef'' ! n"

text \<open>\<open>'\\u{0:04x}'.format(n)\<close>, for \<open>n\<close> below \<open>0x10000\<close>.\<close>

definition u_escape :: "nat \<Rightarrow> pystr" where
  "u_escape n =
     [backslash, code_point CHR ''u'', hex_digit (n div 4096 mod 16), hex_digit (n div 256 mod 16),
      hex_digit (n div 16 mod 16), hex_digit (n mod 16)]"

definition escape_char :: "nat \<Rightarrow> pystr" where
  "escape_char c =
     (if c = quote then [backslash, quote]
      else if c = backslash then [backslash, backslash]
      else if c = 10 then [backslash, code_point CHR ''n'']
      else if c = 13 then [backslash, code_point CHR ''r'']
      else if c = 9 then [backslash, code_point CHR ''t'']
      else if c = 8 then [backslash, code_point CHR ''b'']
      else if c = 12 then [backslash, code_point CHR ''f'']
      else if c < 32 \<or> c > 126 then
        (if c < 65536 then u_escape c
         else u_escape (55296 + (c - 65536) div 1024 mod 1024)
              @ u_escape (56320 + (c - 65536) mod 1024))
      else [c])"

definition encode_basestring_ascii :: "pystr \<Rightarrow> pystr" where
  "encode_basestring_ascii s = quote # concat (map escape_char s) @ [quote]"

definition encode_val :: "pyval \<Rightarrow> pystr" where
  "encode_val v =
     (case v of
        PNone \<Rightarrow> py ''null''
      | PInt i \<Rightarrow> py (str_int i)
      | PStr s \<Rightarrow> encode_basestring_ascii s)"

definition newline_indent :: "nat \<Rightarrow> pystr" where
  "newline_indent level = newline # replicate (4 * level) (code_point CHR '' '')"

fun join :: "pystr \<Rightarrow> pystr list \<Rightarrow> pystr" where
  "join sep [] = []"
| "join sep [x] = x"
| "join sep (x # y # ys) = x @ sep @ join sep (y # ys)"

definition encode_item :: "string \<times> pyval \<Rightarrow> pystr" where
  "encode_item kv = encode_basestring_ascii (py (fst kv)) @ py '': '' @ encode_val (snd kv)"

definition encode_dict :: "nat \<Rightarrow> pydict \<Rightarrow> pystr" where
  "encode_dict level d =
     (if d = [] then py ''{}''
      else py ''{'' @ newline_indent (level + 1)
           @ join (py '','' @ newline_indent (level + 1)) (map encode_item d)
           @ newline_indent level @ py ''}'')"

definition encode_list :: "nat \<Rightarrow> pydict list \<Rightarrow> pystr" where
  "encode_list level ds =
     (if ds = [] then py ''[]''
      else py ''['' @ newline_indent (level + 1)
           @ join (py '','' @ newline_indent (level + 1)) (map (encode_dict (level + 1)) ds)
           @ newline_indent level @ py '']'')"

definition dumps :: "pydict list \<Rightarrow> pystr" where
  "dumps ds = encode_list 0 ds"

subsection \<open>Lines 115 to 123: the report\<close>

text \<open>The standard output of the report, or the exception that it raises.\<close>

definition report :: "bool \<Rightarrow> scan_state \<Rightarrow> error + pystr" where
  "report output_json st =
     (if output_json then Inr (print (dumps (force_merged_prs st)))
      else case text_blocks (pr_merged_at st) (force_merged_prs st) of
        Inl e \<Rightarrow> Inl e
      | Inr out \<Rightarrow> Inr (print (newline # py ''Force-Merged PRs:'') @ out))"

subsection \<open>Verbose mode\<close>

text \<open>
  \<open>str\<close> of a datetime, which an f-string puts for it: the date, a blank and the time,
  each number filled with zeros to its width, and the microseconds after a point when they
  are not zero.
\<close>

definition zfill :: "nat \<Rightarrow> string \<Rightarrow> string" where
  "zfill width s = replicate (width - length s) CHR ''0'' @ s"

definition str_datetime :: "datetime \<Rightarrow> string" where
  "str_datetime d =
     zfill 4 (str_nat (year d)) @ ''-'' @ zfill 2 (str_nat (month d)) @ ''-''
     @ zfill 2 (str_nat (day d)) @ '' '' @ zfill 2 (str_nat (hour d)) @ '':''
     @ zfill 2 (str_nat (minute d)) @ '':'' @ zfill 2 (str_nat (second d))
     @ (if microsecond d \<noteq> 0 then ''.'' @ zfill 6 (str_nat (microsecond d)) else [])"

text \<open>
  What lines 41 to 48 print for an item when \<open>verbose\<close> is set: nothing for an item with
  no merge timestamp, and one line for any other item that line 39 accepts.
\<close>

definition verbose_pr :: "datetime \<Rightarrow> datetime \<Rightarrow> pull_request \<Rightarrow> pystr" where
  "verbose_pr start_date end_date pr =
     (if truthy (merged_at pr) then
        (case strptime (the (merged_at pr)) of
           Inl e \<Rightarrow> []
         | Inr t \<Rightarrow>
             print (py ((if dt_le start_date t \<and> dt_le t end_date then ''Adding PR '' else ''Skipping PR '')
                        @ str_int (number pr) @ '' for '' @ str_datetime start_date @ '' <= ''
                        @ str_datetime t @ '' <= '' @ str_datetime end_date)))
      else [])"

text \<open>
  What \<open>get_merged_prs\<close> prints when \<open>verbose\<close> is set, in a run that returns: the lines
  of the items of each page that the loop processes, page after page. The recursion is
  that of \<open>fetch_loop\<close>.
\<close>

fun verbose_fetch_loop ::
  "nat \<Rightarrow> (nat \<Rightarrow> error + pull_request list) \<Rightarrow> datetime \<Rightarrow> datetime \<Rightarrow> fetch_state \<Rightarrow> pystr" where
  "verbose_fetch_loop 0 api start_date end_date st = []"
| "verbose_fetch_loop (Suc fuel) api start_date end_date st =
     (if \<not> shouldContinue st then []
      else (case api (page st) of
        Inl e \<Rightarrow> []
      | Inr data \<Rightarrow>
          if data = [] then []
          else concat (map (verbose_pr start_date end_date) data)
               @ (case for_data start_date end_date data st of
                    Inl e \<Rightarrow> []
                  | Inr st' \<Rightarrow>
                      verbose_fetch_loop fuel api start_date end_date (st'\<lparr>page := page st' + 1\<rparr>))))"

text \<open>
  What the verbose mode prints before the report, in a run that reaches the report: line
  91 with the end of the window as line 86 has resolved it, the lines of
  \<open>get_merged_prs\<close>, and line 95 with the number of the pull requests that it returned.
\<close>

definition verbose_lines ::
  "nat \<Rightarrow> (nat \<Rightarrow> error + pull_request list) \<Rightarrow> pystr \<Rightarrow> datetime \<Rightarrow> datetime option \<Rightarrow> pystr" where
  "verbose_lines fuel api repo start_date end_date =
     (case calculate_enddate_if_needed start_date end_date of
        Inl e \<Rightarrow> []
      | Inr end_date' \<Rightarrow>
          print (py ''Fetching merged PRs for repository '' @ repo @ py '' from ''
                 @ py (str_datetime start_date) @ py '' to '' @ py (str_datetime end_date') @ py ''...'')
          @ verbose_fetch_loop fuel api start_date end_date'
              \<lparr>prs = [], page = 1, merged_at_var = None, shouldContinue = True\<rparr>
          @ (case get_merged_prs fuel api start_date end_date' of
               (pages, Some (Inr merged_prs)) \<Rightarrow>
                 print (py ''Scanning '' @ py (str_nat (length merged_prs))
                        @ py '' merged PRs for FORCE_MERGE comments...'')
             | _ \<Rightarrow> []))"

subsection \<open>\<open>main\<close>\<close>

text \<open>
  \<open>None\<close> when the fuel ran out, the exception that the run raises, or what a run that
  returns has written to the standard output: what the verbose mode prints, if it is set,
  and then the report.
\<close>

definition main ::
  "nat \<Rightarrow> (nat \<Rightarrow> error + pull_request list) \<Rightarrow> (int \<Rightarrow> error + comment list) \<Rightarrow> pystr
    \<Rightarrow> datetime \<Rightarrow> datetime option \<Rightarrow> bool \<Rightarrow> bool \<Rightarrow> (error + pystr) option" where
  "main fuel api get_comments repo start_date end_date output_json verbose =
     (case collect fuel api get_comments repo start_date end_date of
        (pages, reqs, None) \<Rightarrow> None
      | (pages, reqs, Some (Inl e)) \<Rightarrow> Some (Inl e)
      | (pages, reqs, Some (Inr st)) \<Rightarrow>
          (case report output_json st of
             Inl e \<Rightarrow> Some (Inl e)
           | Inr out \<Rightarrow>
               Some (Inr ((if verbose then verbose_lines fuel api repo start_date end_date else [])
                          @ out))))"

section \<open>Notions of the specification\<close>

text \<open>
  The merge timestamp of an item: the value of \<open>merged_at\<close> as a datetime, for an
  item that has one.
\<close>

definition merged_time :: "pull_request \<Rightarrow> datetime option" where
  "merged_time pr =
     (if truthy (merged_at pr) then
        (case strptime (the (merged_at pr)) of Inl e \<Rightarrow> None | Inr t \<Rightarrow> Some t)
      else None)"

text \<open>An item is in the window when it has a merge timestamp between the start and the end, both included.\<close>

definition in_window :: "datetime \<Rightarrow> datetime \<Rightarrow> pull_request \<Rightarrow> bool" where
  "in_window start_date end_date pr =
     (case merged_time pr of None \<Rightarrow> False | Some t \<Rightarrow> dt_le start_date t \<and> dt_le t end_date)"

text \<open>The items of a page of the API, none for a response that is an error.\<close>

definition items_of :: "(nat \<Rightarrow> error + pull_request list) \<Rightarrow> nat \<Rightarrow> pull_request list" where
  "items_of api p = (case api p of Inl e \<Rightarrow> [] | Inr data \<Rightarrow> data)"

text \<open>The lengths of the months of the Gregorian calendar.\<close>

definition month_length :: "nat \<Rightarrow> nat \<Rightarrow> nat" where
  "month_length y m =
     (if m = 2 then (if (4 dvd y \<and> \<not> 100 dvd y) \<or> 400 dvd y then 29 else 28)
      else if m = 4 \<or> m = 6 \<or> m = 9 \<or> m = 11 then 30
      else 31)"

text \<open>A date of the calendar from year 1 on, with no bound on the year.\<close>

definition valid_fields :: "datetime \<Rightarrow> bool" where
  "valid_fields d \<longleftrightarrow> 1 \<le> year d \<and> 1 \<le> month d \<and> month d \<le> 12 \<and>
     1 \<le> day d \<and> day d \<le> days_in_month (year d) (month d)"

text \<open>
  The variable \<open>merged_at\<close> and the flag agree: if the variable holds a timestamp before the
  start, the flag has been cleared.
\<close>

definition flag_consistent :: "datetime \<Rightarrow> fetch_state \<Rightarrow> bool" where
  "flag_consistent start_date st \<longleftrightarrow>
     (case merged_at_var st of None \<Rightarrow> True | Some t \<Rightarrow> dt_lt t start_date \<longrightarrow> \<not> shouldContinue st)"

text \<open>The state in which \<open>get_merged_prs\<close> enters its loop.\<close>

definition fetch_init :: fetch_state where
  "fetch_init = \<lparr>prs = [], page = 1, merged_at_var = None, shouldContinue = True\<rparr>"

text \<open>The comments of a pull request, none for a response that is an error.\<close>

definition comments_of :: "(int \<Rightarrow> error + comment list) \<Rightarrow> int \<Rightarrow> comment list" where
  "comments_of get_comments n = (case get_comments n of Inl e \<Rightarrow> [] | Inr cs \<Rightarrow> cs)"

text \<open>
  The texts of the API's data are Python strings: every number in them is a code point.
\<close>

definition valid_val :: "pyval \<Rightarrow> bool" where
  "valid_val v \<longleftrightarrow> (case v of PStr s \<Rightarrow> valid_str s | _ \<Rightarrow> True)"

definition valid_dict :: "pydict \<Rightarrow> bool" where
  "valid_dict d \<longleftrightarrow> list_all (\<lambda>kv. valid_val (snd kv)) d"

definition valid_pull_request :: "pull_request \<Rightarrow> bool" where
  "valid_pull_request pr \<longleftrightarrow>
     valid_str (title pr) \<and> valid_str (user_login pr) \<and> valid_str (html_url pr)"

definition valid_comment :: "comment \<Rightarrow> bool" where
  "valid_comment c \<longleftrightarrow> valid_str (comment_user_login c) \<and> valid_str (body c)"

definition valid_api :: "(nat \<Rightarrow> error + pull_request list) \<Rightarrow> bool" where
  "valid_api api \<longleftrightarrow> (\<forall>p. list_all valid_pull_request (items_of api p))"

definition valid_comments_api :: "(int \<Rightarrow> error + comment list) \<Rightarrow> bool" where
  "valid_comments_api get_comments \<longleftrightarrow> (\<forall>n. list_all valid_comment (comments_of get_comments n))"

section \<open>Example data\<close>

text \<open>
  The window of March 2024 and pull requests merged before it, in it and after it, and one
  that was closed without a merge; then some responses of the API.
\<close>

definition ex_start :: datetime where
  "ex_start = \<lparr>year = 2024, month = 3, day = 1, hour = 0, minute = 0, second = 0, microsecond = 0\<rparr>"

definition ex_end :: datetime where
  "ex_end = \<lparr>year = 2024, month = 3, day = 31, hour = 23, minute = 59, second = 59, microsecond = 999999\<rparr>"

definition ex_pr :: "int \<Rightarrow> string option \<Rightarrow> pull_request" where
  "ex_pr n m = \<lparr>number = n, title = py ''Fix'', user_login = py ''alice'', merged_at = m,
               html_url = py ''https://example.test/pull''\<rparr>"

definition ex_before :: pull_request where
  "ex_before = ex_pr 7 (Some ''2024-02-10T08:30:00Z'')"

definition ex_inside :: pull_request where
  "ex_inside = ex_pr 42 (Some ''2024-03-15T12:00:00Z'')"

definition ex_inside' :: pull_request where
  "ex_inside' = ex_pr 43 (Some ''2024-03-20T09:00:00Z'')"

definition ex_after :: pull_request where
  "ex_after = ex_pr 50 (Some ''2024-04-02T09:00:00Z'')"

definition ex_unmerged :: pull_request where
  "ex_unmerged = ex_pr 9 None"

definition ex_api_stop :: "nat \<Rightarrow> error + pull_request list" where
  "ex_api_stop p = (if p = 1 then Inr [ex_inside, ex_before, ex_inside'] else Inr [ex_inside'])"

definition ex_api_window :: "nat \<Rightarrow> error + pull_request list" where
  "ex_api_window p = (if p = 1 then Inr [ex_after, ex_inside] else Inr [])"

definition ex_api_100 :: "nat \<Rightarrow> error + pull_request list" where
  "ex_api_100 p = (if p = 1 then Inr (replicate 100 ex_inside) else Inr [])"

definition ex_api_tail :: "nat \<Rightarrow> error + pull_request list" where
  "ex_api_tail p = Inr [ex_before, ex_inside]"

definition ex_api_skip :: "pull_request \<Rightarrow> nat \<Rightarrow> error + pull_request list" where
  "ex_api_skip pr p =
     (if p = 1 then Inr [ex_inside, pr] else if p = 2 then Inr [ex_inside'] else Inr [])"

definition ex_api_unmerged :: "nat \<Rightarrow> error + pull_request list" where
  "ex_api_unmerged p = (if p = 1 then Inr [ex_unmerged, ex_inside] else Inr [])"

definition ex_api_unmerged_later :: "nat \<Rightarrow> error + pull_request list" where
  "ex_api_unmerged_later p = (if p = 1 then Inr [ex_inside, ex_unmerged] else Inr [])"

definition ex_api_two :: "nat \<Rightarrow> error + pull_request list" where
  "ex_api_two p = (if p = 1 then Inr [ex_inside, ex_inside'] else Inr [])"

definition ex_comment :: comment where
  "ex_comment = \<lparr>comment_user_login = py ''bob'', body = py ''FORCE_MERGE: ci flaky''\<rparr>"

definition ex_comments :: "int \<Rightarrow> error + comment list" where
  "ex_comments n = (if n = 42 then Inr [ex_comment] else Inr [])"

definition ex_repo :: pystr where
  "ex_repo = py ''acme/widgets''"

text \<open>A comment with a quote, a backslash, a tabulator, a letter with an accent and an emoji.\<close>

definition ex_comment_unicode :: comment where
  "ex_comment_unicode =
     \<lparr>comment_user_login = py ''bob'',
      body = py ''FORCE_MERGE '' @ [34, 92, 9, 233, 128640]\<rparr>"

definition ex_comments_unicode :: "int \<Rightarrow> error + comment list" where
  "ex_comments_unicode n = (if n = 42 then Inr [ex_comment_unicode] else Inr [])"

text \<open>What a verbose run in JSON mode prints on the pull requests 42 and 43 of \<open>ex_api_two\<close>.\<close>

definition ex_verbose_lines :: pystr where
  "ex_verbose_lines =
     print (py (''Fetching merged PRs for repository acme/widgets from 2024-03-01 00:00:00''
                @ '' to 2024-03-31 23:59:59.999999...''))
     @ print (py (''Adding PR 42 for 2024-03-01 00:00:00 <= 2024-03-15 12:00:00''
                  @ '' <= 2024-03-31 23:59:59.999999''))
     @ print (py (''Adding PR 43 for 2024-03-01 00:00:00 <= 2024-03-20 09:00:00''
                  @ '' <= 2024-03-31 23:59:59.999999''))
     @ print (py ''Scanning 2 merged PRs for FORCE_MERGE comments...'')"

definition ex_verbose_output :: pystr where
  "ex_verbose_output =
     ex_verbose_lines @ print (dumps [force_merge_record ex_repo ex_inside ex_comment])"

section \<open>JSON texts\<close>

text \<open>
  What a text has to be for being JSON (RFC 8259), as a relation between the text and the
  value that it denotes: white space, the literals, integers (a number of JSON may also
  have a fraction and an exponent, which the report never prints), strings with their
  escapes, arrays and objects. A text and a string are sequences of code points; in a
  string, an escape of four hexadecimal digits denotes the code point of that number, and
  two of them that are a high and a low surrogate denote the code point above \<open>0xFFFF\<close>
  that the pair stands for in UTF-16.
\<close>

datatype json =
    JNull
  | JBool bool
  | JNum int
  | JStr pystr
  | JArr "json list"
  | JObj "(pystr \<times> json) list"

definition json_ws :: "pystr \<Rightarrow> bool" where
  "json_ws w \<longleftrightarrow> set w \<subseteq> {32, 9, 10, 13}"

definition json_int :: "pystr \<Rightarrow> int \<Rightarrow> bool" where
  "json_int s i \<longleftrightarrow>
     (\<exists>ds. ds \<noteq> [] \<and> list_all is_digit ds \<and> (ds = ''0'' \<or> hd ds \<noteq> CHR ''0'') \<and>
        (s = py ds \<and> i = int (nat_of_digits ds) \<or>
         s = py (CHR ''-'' # ds) \<and> i = - int (nat_of_digits ds)))"

definition json_escapes :: "(nat \<times> nat) list" where
  "json_escapes =
     [(quote, quote), (backslash, backslash), (code_point CHR ''/'', code_point CHR ''/''),
      (code_point CHR ''b'', 8), (code_point CHR ''f'', 12), (code_point CHR ''n'', 10),
      (code_point CHR ''r'', 13), (code_point CHR ''t'', 9)]"

definition hex_val :: "nat \<Rightarrow> nat option" where
  "hex_val c =
     (if c \<in> set (py ''0123456789'') then Some (c - 48)
      else if c \<in> set (py ''abcdef'') then Some (c - 87)
      else if c \<in> set (py ''ABCDEF'') then Some (c - 55)
      else None)"

text \<open>The number that four hexadecimal digits after \<open>\u\<close> denote.\<close>

definition hex4_val :: "pystr \<Rightarrow> nat option" where
  "hex4_val h =
     (case map hex_val h of
        [Some a, Some b, Some c, Some d] \<Rightarrow> Some (((a * 16 + b) * 16 + c) * 16 + d)
      | _ \<Rightarrow> None)"

inductive json_chars :: "pystr \<Rightarrow> pystr \<Rightarrow> bool" where
  chars_Nil: "json_chars [] []"
| chars_plain:
    "32 \<le> c \<Longrightarrow> c < 1114112 \<Longrightarrow> c \<noteq> quote \<Longrightarrow> c \<noteq> backslash \<Longrightarrow> json_chars t s
      \<Longrightarrow> json_chars (c # t) (c # s)"
| chars_escape:
    "map_of json_escapes e = Some c \<Longrightarrow> json_chars t s
      \<Longrightarrow> json_chars (backslash # e # t) (c # s)"
| chars_unicode:
    "hex4_val h = Some c \<Longrightarrow> json_chars t s
      \<Longrightarrow> json_chars (backslash # code_point CHR ''u'' # h @ t) (c # s)"
| chars_surrogates:
    "hex4_val h = Some hi \<Longrightarrow> hex4_val l = Some lo \<Longrightarrow> 55296 \<le> hi \<Longrightarrow> hi < 56320
      \<Longrightarrow> 56320 \<le> lo \<Longrightarrow> lo < 57344 \<Longrightarrow> c = 65536 + (hi - 55296) * 1024 + (lo - 56320)
      \<Longrightarrow> json_chars t s
      \<Longrightarrow> json_chars (backslash # code_point CHR ''u'' # h @ backslash # code_point CHR ''u'' # l @ t)
            (c # s)"

inductive json_value :: "pystr \<Rightarrow> json \<Rightarrow> bool"
  and json_elements :: "pystr \<Rightarrow> json list \<Rightarrow> bool"
  and json_members :: "pystr \<Rightarrow> (pystr \<times> json) list \<Rightarrow> bool"
where
  value_null: "json_value (py ''null'') JNull"
| value_true: "json_value (py ''true'') (JBool True)"
| value_false: "json_value (py ''false'') (JBool False)"
| value_number: "json_int s i \<Longrightarrow> json_value s (JNum i)"
| value_string: "json_chars t s \<Longrightarrow> json_value (quote # t @ [quote]) (JStr s)"
| value_empty_array: "json_ws w \<Longrightarrow> json_value (py ''['' @ w @ py '']'') (JArr [])"
| value_array: "json_elements t vs \<Longrightarrow> json_value (py ''['' @ t @ py '']'') (JArr vs)"
| value_empty_object: "json_ws w \<Longrightarrow> json_value (py ''{'' @ w @ py ''}'') (JObj [])"
| value_object: "json_members t ms \<Longrightarrow> json_value (py ''{'' @ t @ py ''}'') (JObj ms)"
| elements_one:
    "json_ws w1 \<Longrightarrow> json_value t v \<Longrightarrow> json_ws w2 \<Longrightarrow> json_elements (w1 @ t @ w2) [v]"
| elements_more:
    "json_ws w1 \<Longrightarrow> json_value t v \<Longrightarrow> json_ws w2 \<Longrightarrow> json_elements r vs
      \<Longrightarrow> json_elements (w1 @ t @ w2 @ py '','' @ r) (v # vs)"
| members_one:
    "json_ws w1 \<Longrightarrow> json_chars kt k \<Longrightarrow> json_ws w2 \<Longrightarrow> json_ws w3 \<Longrightarrow> json_value t v
      \<Longrightarrow> json_ws w4
      \<Longrightarrow> json_members (w1 @ quote # kt @ quote # w2 @ py '':'' @ w3 @ t @ w4) [(k, v)]"
| members_more:
    "json_ws w1 \<Longrightarrow> json_chars kt k \<Longrightarrow> json_ws w2 \<Longrightarrow> json_ws w3 \<Longrightarrow> json_value t v
      \<Longrightarrow> json_ws w4 \<Longrightarrow> json_members r ms
      \<Longrightarrow> json_members (w1 @ quote # kt @ quote # w2 @ py '':'' @ w3 @ t @ w4 @ py '','' @ r)
            ((k, v) # ms)"

definition json_text :: "pystr \<Rightarrow> json \<Rightarrow> bool" where
  "json_text s v \<longleftrightarrow> (\<exists>w1 t w2. s = w1 @ t @ w2 \<and> json_ws w1 \<and> json_value t v \<and> json_ws w2)"

definition is_json_text :: "pystr \<Rightarrow> bool" where
  "is_json_text s \<longleftrightarrow> (\<exists>v. json_text s v)"

text \<open>A text is a JSON array of objects that have exactly the keys \<open>ks\<close>, in their order.\<close>

definition json_array_of_objects :: "pystr list \<Rightarrow> pystr \<Rightarrow> bool" where
  "json_array_of_objects ks s \<longleftrightarrow>
     (\<exists>objs. json_text s (JArr objs) \<and> list_all (\<lambda>obj. \<exists>ms. obj = JObj ms \<and> map fst ms = ks) objs)"

text \<open>The JSON value of a Python value and of a dictionary of the report.\<close>

definition json_of_val :: "pyval \<Rightarrow> json" where
  "json_of_val v = (case v of PNone \<Rightarrow> JNull | PInt i \<Rightarrow> JNum i | PStr s \<Rightarrow> JStr s)"

definition json_of_dict :: "pydict \<Rightarrow> json" where
  "json_of_dict d = JObj (map (\<lambda>kv. (py (fst kv), json_of_val (snd kv))) d)"

text \<open>The eight documented fields of a record of the report.\<close>

definition documented_fields :: "string list" where
  "documented_fields =
     [''repo'', ''pr_number'', ''title'', ''author'', ''commenter'', ''comment_body'',
      ''merged_at'', ''url'']"

declare str_nat.simps [simp del]

section \<open>Texts as code points\<close>

lemma py_Nil: "py [] = []" by (simp add: py_def)

lemma py_Cons: "py (c # s) = code_point c # py s" by (simp add: py_def)

lemma py_append: "py (a @ b) = py a @ py b" by (simp add: py_def)

section \<open>The calendar arithmetic\<close>

lemma month_cases:
  assumes "1 \<le> m" "m \<le> (12::nat)"
  obtains "m = 1" | "m = 2" | "m = 3" | "m = 4" | "m = 5" | "m = 6"
        | "m = 7" | "m = 8" | "m = 9" | "m = 10" | "m = 11" | "m = 12"
proof -
  from assms have "m = 1 \<or> m = 2 \<or> m = 3 \<or> m = 4 \<or> m = 5 \<or> m = 6 \<or> m = 7 \<or> m = 8
    \<or> m = 9 \<or> m = 10 \<or> m = 11 \<or> m = 12" by arith
  then show thesis using that by blast
qed

lemma days_in_month_length:
  assumes "1 \<le> m" "m \<le> 12"
  shows "days_in_month y m = month_length y m"
proof -
  have "4 dvd y" if "400 dvd y"
    using that by (rule dvd_trans [rotated]) simp
  then have leap: "isleap y \<longleftrightarrow> (4 dvd y \<and> \<not> 100 dvd y) \<or> 400 dvd y"
    by (auto simp: isleap_def mod_eq_0_iff_dvd)
  from assms show ?thesis
    by (rule month_cases) (simp_all add: days_in_month_def mdays_def month_length_def leap)
qed

lemma days_in_month_pos: "1 \<le> m \<Longrightarrow> m \<le> 12 \<Longrightarrow> 1 \<le> days_in_month y m"
  by (simp add: days_in_month_length month_length_def)

lemma days_before_year_Suc:
  assumes "1 \<le> y"
  shows "days_before_year (Suc y) = days_before_year y + (if isleap y then 366 else 365)"
proof -
  from assms obtain k where y: "y = Suc k" by (cases y) auto
  define a b c where "a = k div 4" and "b = k div 100" and "c = k div 400"
  have ba: "b \<le> a" unfolding a_def b_def by (rule div_le_mono2) simp_all
  have f: "Suc k mod 4 = 0" if "Suc k mod 100 = 0"
    using that mod_mod_cancel [of 4 100 "Suc k"] by simp
  have g: "Suc k mod 100 = 0" if "Suc k mod 400 = 0"
    using that mod_mod_cancel [of 100 400 "Suc k"] by simp
  have old: "days_before_year y = k * 365 + a - b + c"
    by (simp add: days_before_year_def y a_def b_def c_def)
  have new: "days_before_year (Suc y) =
      Suc k * 365 + (a + (if Suc k mod 4 = 0 then 1 else 0))
        - (b + (if Suc k mod 100 = 0 then 1 else 0)) + (c + (if Suc k mod 400 = 0 then 1 else 0))"
    by (simp add: days_before_year_def y a_def b_def c_def div_Suc [of k])
  have leap: "isleap y \<longleftrightarrow> Suc k mod 4 = 0 \<and> (Suc k mod 100 \<noteq> 0 \<or> Suc k mod 400 = 0)"
    by (simp add: isleap_def y)
  show ?thesis
    unfolding old new leap using ba f g by (auto split: if_splits)
qed

lemma days_before_year_mono: "y \<le> z \<Longrightarrow> days_before_year y \<le> days_before_year z"
proof (rule lift_Suc_mono_le [of days_before_year])
  fix n show "days_before_year n \<le> days_before_year (Suc n)"
  proof (cases n)
    case 0 then show ?thesis by (simp add: days_before_year_def)
  next
    case (Suc k) then show ?thesis using days_before_year_Suc [of n] by simp
  qed
qed

lemma days_before_year_10000: "days_before_year 10000 = 3652059"
  by (simp add: days_before_year_def)

lemma days_before_month_Suc:
  "1 \<le> m \<Longrightarrow> days_before_month y (Suc m) = days_before_month y m + days_in_month y m"
  by (simp add: days_before_month_def)

lemma days_before_month_1: "days_before_month y (Suc 0) = 0"
  by (simp add: days_before_month_def)

lemma days_before_month_12:
  "days_before_month y 12 + days_in_month y 12 = (if isleap y then 366 else 365)"
  by (simp add: days_before_month_def days_in_month_def mdays_def upt_rec)

lemma days_before_month_le:
  assumes "1 \<le> m" "m \<le> 12"
  shows "days_before_month y m + days_in_month y m \<le> (if isleap y then 366 else 365)"
  using assms
  by (rule month_cases) (simp_all add: days_before_month_def days_in_month_def mdays_def upt_rec)

lemma next_day_ordinal:
  assumes "valid_fields d"
  shows "toordinal (next_day d) = toordinal d + 1"
proof (cases "day d < days_in_month (year d) (month d)")
  case True
  then show ?thesis by (simp add: next_day_def toordinal_def)
next
  case last: False
  with assms have dd: "day d = days_in_month (year d) (month d)"
    by (simp add: valid_fields_def)
  show ?thesis
  proof (cases "month d < 12")
    case True
    with assms have "days_before_month (year d) (month d + 1) = days_before_month (year d) (month d) + day d"
      using days_before_month_Suc [of "month d" "year d"] dd by (simp add: valid_fields_def)
    with True last show ?thesis by (simp add: next_day_def toordinal_def)
  next
    case False
    with assms have m: "month d = 12" by (simp add: valid_fields_def)
    have "days_before_month (year d) 12 + day d = (if isleap (year d) then 366 else 365)"
      using days_before_month_12 [of "year d"] dd m by simp
    moreover have "1 \<le> year d" using assms by (simp add: valid_fields_def)
    ultimately show ?thesis
      using last m days_before_year_Suc [of "year d"]
      by (simp add: next_day_def toordinal_def days_before_month_1)
  qed
qed

lemma next_day_valid_fields:
  assumes "valid_fields d"
  shows "valid_fields (next_day d)"
proof (cases "day d < days_in_month (year d) (month d)")
  case True
  with assms show ?thesis by (simp add: valid_fields_def next_day_def)
next
  case last: False
  show ?thesis
  proof (cases "month d < 12")
    case True
    with assms have "1 \<le> days_in_month (year d) (month d + 1)"
      by (intro days_in_month_pos) (simp_all add: valid_fields_def)
    with True last assms show ?thesis by (simp add: valid_fields_def next_day_def)
  next
    case False
    have "1 \<le> days_in_month (year d + 1) 1" by (intro days_in_month_pos) simp_all
    with False last assms show ?thesis by (simp add: valid_fields_def next_day_def)
  qed
qed

lemma next_day_time:
  "hour (next_day d) = hour d \<and> minute (next_day d) = minute d \<and>
   second (next_day d) = second d \<and> microsecond (next_day d) = microsecond d"
  by (simp add: next_day_def)

lemma days_later_valid_fields: "valid_fields d \<Longrightarrow> valid_fields (days_later n d)"
  by (induction n arbitrary: d) (simp_all add: next_day_valid_fields)

lemma days_later_ordinal: "valid_fields d \<Longrightarrow> toordinal (days_later n d) = toordinal d + n"
  by (induction n arbitrary: d) (simp_all add: next_day_valid_fields next_day_ordinal)

lemma days_later_time:
  "hour (days_later n d) = hour d \<and> minute (days_later n d) = minute d \<and>
   second (days_later n d) = second d \<and> microsecond (days_later n d) = microsecond d"
  by (induction n arbitrary: d) (simp_all add: next_day_time)

lemma year_le_iff_ordinal:
  assumes "valid_fields d"
  shows "year d \<le> 9999 \<longleftrightarrow> toordinal d \<le> 3652059"
proof
  assume y: "year d \<le> 9999"
  from assms have "days_before_month (year d) (month d) + day d \<le> (if isleap (year d) then 366 else 365)"
    using days_before_month_le [of "month d" "year d"] by (simp add: valid_fields_def)
  with assms have "toordinal d \<le> days_before_year (Suc (year d))"
    using days_before_year_Suc [of "year d"] by (simp add: toordinal_def valid_fields_def)
  also from y have "\<dots> \<le> days_before_year 10000" by (intro days_before_year_mono) simp
  finally show "toordinal d \<le> 3652059" by (simp add: days_before_year_10000)
next
  assume o: "toordinal d \<le> 3652059"
  show "year d \<le> 9999"
  proof (rule ccontr)
    assume "\<not> year d \<le> 9999"
    then have "days_before_year 10000 \<le> days_before_year (year d)"
      by (intro days_before_year_mono) simp
    moreover from assms have "days_before_year (year d) < toordinal d"
      by (simp add: toordinal_def valid_fields_def)
    ultimately show False using o by (simp add: days_before_year_10000)
  qed
qed

lemma valid_datetime_fields: "valid_datetime d \<Longrightarrow> valid_fields d"
  by (simp add: valid_datetime_def valid_fields_def)

lemma days_before_month_mono:
  "1 \<le> m \<Longrightarrow> m \<le> n \<Longrightarrow> days_before_month y m \<le> days_before_month y n"
proof (induction n)
  case 0
  then show ?case by simp
next
  case (Suc n)
  show ?case
  proof (cases "m = Suc n")
    case True
    then show ?thesis by simp
  next
    case False
    with Suc.prems have "m \<le> n" and "1 \<le> n" by simp_all
    with Suc.IH Suc.prems(1) days_before_month_Suc [of n y] show ?thesis by simp
  qed
qed

lemma toordinal_less:
  assumes "valid_fields a" "valid_fields b"
    and "(year a, month a, day a) < (year b, month b, day b)"
  shows "toordinal a < toordinal b"
proof -
  from assms(3) consider "year a < year b" | "year a = year b" "month a < month b"
    | "year a = year b" "month a = month b" "day a < day b"
    by (auto simp: less_prod_def')
  then show ?thesis
  proof cases
    case 1
    from assms(1) have "days_before_month (year a) (month a) + day a \<le> (if isleap (year a) then 366 else 365)"
      using days_before_month_le [of "month a" "year a"] by (simp add: valid_fields_def)
    with assms(1) have "toordinal a \<le> days_before_year (Suc (year a))"
      using days_before_year_Suc [of "year a"] by (simp add: toordinal_def valid_fields_def)
    also from 1 have "\<dots> \<le> days_before_year (year b)" by (intro days_before_year_mono) simp
    also from assms(2) have "\<dots> < toordinal b" by (simp add: toordinal_def valid_fields_def)
    finally show ?thesis .
  next
    case 2
    from assms(1) have "days_before_month (year a) (month a) + day a
        \<le> days_before_month (year a) (Suc (month a))"
      using days_before_month_Suc [of "month a" "year a"] by (simp add: valid_fields_def)
    also from 2 assms(1) have "\<dots> \<le> days_before_month (year a) (month b)"
      by (intro days_before_month_mono) (simp_all add: valid_fields_def)
    also from assms(2) have "\<dots> < days_before_month (year a) (month b) + day b"
      by (simp add: valid_fields_def)
    finally show ?thesis using 2 by (simp add: toordinal_def)
  next
    case 3
    then show ?thesis by (simp add: toordinal_def)
  qed
qed

lemma toordinal_inj:
  assumes "valid_fields a" "valid_fields b" "toordinal a = toordinal b"
  shows "year a = year b \<and> month a = month b \<and> day a = day b"
proof (rule ccontr)
  assume "\<not> ?thesis"
  then have "(year a, month a, day a) \<noteq> (year b, month b, day b)" by auto
  then have "(year a, month a, day a) < (year b, month b, day b)
      \<or> (year b, month b, day b) < (year a, month a, day a)"
    by (rule neqE) blast+
  with toordinal_less [OF assms(1,2)] toordinal_less [OF assms(2,1)] assms(3)
  show False by auto
qed

lemma days_later_numeral:
  "days_later (numeral k) d = days_later (pred_numeral k) (next_day d)"
  by (simp add: numeral_eq_Suc)

lemmas calendar_eval =
  valid_datetime_def days_in_month_def mdays_def isleap_def month_length_def next_day_def
  days_later_numeral toordinal_def days_before_year_def days_before_month_def upt_rec

section \<open>The end of the window\<close>

text \<open>
  C5. When an end date is given it is returned unchanged. With no end date and a start on
  the first day of a month, the result is the start with the day set to the length of the
  month (28, 29, 30 or 31 by the rules of the calendar), the day after which is in another
  month, at 23:59:59.999999. With no end date and any other start, the result is the date
  whose ordinal is that of the start plus 30 (the ordinal determines the date:
  \<open>toordinal_inj\<close>), at 23:59:59.999999; where that date would be after 9999-12-31, which
  no datetime can hold, the addition raises \<open>OverflowError\<close>.
\<close>

theorem calculate_enddate_if_needed_resolves:
  assumes "valid_datetime start_date"
  shows
    "calculate_enddate_if_needed start_date (Some e) = Inr e \<and>
     (day start_date = 1 \<longrightarrow>
        (\<exists>r. calculate_enddate_if_needed start_date None = Inr r \<and>
           r = start_date\<lparr>day := month_length (year start_date) (month start_date),
                 hour := 23, minute := 59, second := 59, microsecond := 999999\<rparr> \<and>
           month (next_day r) \<noteq> month start_date)) \<and>
     (day start_date \<noteq> 1 \<longrightarrow>
        (if toordinal start_date + 30 \<le> 3652059
         then \<exists>r. calculate_enddate_if_needed start_date None = Inr r \<and> valid_datetime r \<and>
                toordinal r = toordinal start_date + 30 \<and>
                hour r = 23 \<and> minute r = 59 \<and> second r = 59 \<and> microsecond r = 999999
         else calculate_enddate_if_needed start_date None = Inl OverflowError))"
proof (intro conjI impI)
  show "calculate_enddate_if_needed start_date (Some e) = Inr e"
    by (simp add: calculate_enddate_if_needed_def)
next
  assume first: "day start_date = 1"
  from assms have m: "1 \<le> month start_date" "month start_date \<le> 12"
    by (simp_all add: valid_datetime_def)
  define r where "r = start_date\<lparr>day := month_length (year start_date) (month start_date),
                 hour := 23, minute := 59, second := 59, microsecond := 999999\<rparr>"
  have len: "days_in_month (year start_date) (month start_date) =
      month_length (year start_date) (month start_date)"
    using m by (rule days_in_month_length)
  have pos: "1 \<le> month_length (year start_date) (month start_date)"
    by (simp add: month_length_def)
  have "valid_datetime r"
    using assms pos by (simp add: valid_datetime_def r_def len)
  then have "calculate_enddate_if_needed start_date None = Inr r"
    using m first by (simp add: calculate_enddate_if_needed_def monthrange_ndays_def dt_replace_def len r_def)
  moreover have "month (next_day r) \<noteq> month start_date"
    using m by (simp add: next_day_def r_def len)
  ultimately show "\<exists>r. calculate_enddate_if_needed start_date None = Inr r \<and>
           r = start_date\<lparr>day := month_length (year start_date) (month start_date),
                 hour := 23, minute := 59, second := 59, microsecond := 999999\<rparr> \<and>
           month (next_day r) \<noteq> month start_date"
    unfolding r_def by blast
next
  assume later: "day start_date \<noteq> 1"
  define d where "d = days_later 30 start_date"
  from assms have vf: "valid_fields start_date" by (rule valid_datetime_fields)
  then have vd: "valid_fields d" and od: "toordinal d = toordinal start_date + 30"
    unfolding d_def by (simp_all add: days_later_valid_fields days_later_ordinal)
  have yd: "year d \<le> 9999 \<longleftrightarrow> toordinal start_date + 30 \<le> 3652059"
    using year_le_iff_ordinal [OF vd] od by simp
  show "if toordinal start_date + 30 \<le> 3652059
         then \<exists>r. calculate_enddate_if_needed start_date None = Inr r \<and> valid_datetime r \<and>
                toordinal r = toordinal start_date + 30 \<and>
                hour r = 23 \<and> minute r = 59 \<and> second r = 59 \<and> microsecond r = 999999
         else calculate_enddate_if_needed start_date None = Inl OverflowError"
  proof (cases "toordinal start_date + 30 \<le> 3652059")
    case False
    with yd later show ?thesis
      by (simp add: calculate_enddate_if_needed_def add_days_def d_def [symmetric])
  next
    case True
    define r where "r = d\<lparr>hour := 23, minute := 59, second := 59, microsecond := 999999\<rparr>"
    from True yd vd have "valid_datetime r"
      by (simp add: valid_datetime_def valid_fields_def r_def)
    moreover from this True yd later have "calculate_enddate_if_needed start_date None = Inr r"
      by (simp add: calculate_enddate_if_needed_def add_days_def d_def [symmetric] dt_replace_def r_def)
    moreover have "toordinal r = toordinal start_date + 30"
      using od by (simp add: toordinal_def r_def)
    ultimately show ?thesis using True by (simp add: r_def)
  qed
qed

theorem calculate_enddate_if_needed_resolves_witness:
  "valid_datetime \<lparr>year = 2024, month = 2, day = 1, hour = 0, minute = 0, second = 0, microsecond = 0\<rparr> \<and>
   calculate_enddate_if_needed
     \<lparr>year = 2024, month = 2, day = 1, hour = 0, minute = 0, second = 0, microsecond = 0\<rparr> None =
     Inr \<lparr>year = 2024, month = 2, day = 29, hour = 23, minute = 59, second = 59, microsecond = 999999\<rparr> \<and>
   valid_datetime \<lparr>year = 2023, month = 12, day = 15, hour = 0, minute = 0, second = 0, microsecond = 0\<rparr> \<and>
   (\<exists>r. calculate_enddate_if_needed
     \<lparr>year = 2023, month = 12, day = 15, hour = 0, minute = 0, second = 0, microsecond = 0\<rparr> None = Inr r \<and>
     toordinal r = 738869 + 30)"
proof -
  have v1: "valid_datetime \<lparr>year = 2024, month = 2, day = 1, hour = 0, minute = 0, second = 0, microsecond = 0\<rparr>"
    by (simp add: calendar_eval)
  have v2: "valid_datetime \<lparr>year = 2023, month = 12, day = 15, hour = 0, minute = 0, second = 0, microsecond = 0\<rparr>"
    by (simp add: calendar_eval)
  have o2: "toordinal \<lparr>year = 2023, month = 12, day = 15, hour = 0, minute = 0, second = 0, microsecond = 0\<rparr> = 738869"
    by (simp add: calendar_eval)
  show ?thesis
    using calculate_enddate_if_needed_resolves [OF v1] calculate_enddate_if_needed_resolves [OF v2] v1 v2
    by (simp add: o2 month_length_def) blast
qed

section \<open>The loop over the items of a page\<close>

lemma dt_lt_not_le: "dt_lt t s \<Longrightarrow> \<not> dt_le s t"
  by (auto simp: dt_lt_def dt_le_def)

lemma for_pr_timestamp:
  assumes "merged_time pr = Some t"
  shows "for_pr s e pr st =
    Inr (st\<lparr>prs := (if dt_le s t \<and> dt_le t e then prs st @ [pr] else prs st),
            merged_at_var := Some t,
            shouldContinue := shouldContinue st \<and> \<not> dt_lt t s\<rparr>)"
proof -
  from assms have "truthy (merged_at pr)" and "strptime (the (merged_at pr)) = Inr t"
    by (auto simp: merged_time_def split: if_splits sum.splits)
  then show ?thesis by (simp add: for_pr_def)
qed

lemma for_pr_no_timestamp:
  assumes "\<not> truthy (merged_at pr)"
  shows "for_pr s e pr st =
    (case merged_at_var st of
       None \<Rightarrow> Inl UnboundLocalError
     | Some t0 \<Rightarrow> Inr (st\<lparr>shouldContinue := shouldContinue st \<and> \<not> dt_lt t0 s\<rparr>))"
  using assms by (simp add: for_pr_def split: option.splits)

lemma for_pr_unparsable:
  assumes "truthy (merged_at pr)" "strptime (the (merged_at pr)) = Inl err"
  shows "for_pr s e pr st = Inl err"
  using assms by (simp add: for_pr_def)

lemma for_pr_Inr:
  assumes "for_pr s e pr st = Inr st'"
  shows "prs st' = prs st @ filter (in_window s e) [pr] \<and> page st' = page st \<and>
         (shouldContinue st' \<longrightarrow> shouldContinue st) \<and>
         (case merged_time pr of
            None \<Rightarrow> merged_at_var st' = merged_at_var st
          | Some t \<Rightarrow> merged_at_var st' = Some t \<and> (dt_lt t s \<longrightarrow> \<not> shouldContinue st'))"
proof (cases "truthy (merged_at pr)")
  case False
  then have "merged_time pr = None" by (simp add: merged_time_def)
  with assms False show ?thesis
    by (auto simp: for_pr_no_timestamp in_window_def split: option.splits)
next
  case True
  show ?thesis
  proof (cases "strptime (the (merged_at pr))")
    case (Inl err)
    with True assms show ?thesis by (simp add: for_pr_unparsable)
  next
    case (Inr t)
    with True have "merged_time pr = Some t" by (simp add: merged_time_def)
    with assms show ?thesis by (auto simp: for_pr_timestamp in_window_def)
  qed
qed

lemma for_pr_flag_consistent:
  assumes "for_pr s e pr st = Inr st'"
  shows "merged_at_var st' \<noteq> None \<and> flag_consistent s st'"
  using assms
  by (auto simp: for_pr_def flag_consistent_def split: if_splits sum.splits option.splits)

lemma not_in_window_before: "merged_time pr = Some t \<Longrightarrow> dt_lt t s \<Longrightarrow> \<not> in_window s e pr"
  by (simp add: in_window_def dt_lt_not_le)

lemma for_data_Inr:
  "for_data s e data st = Inr st' \<Longrightarrow>
     prs st' = prs st @ filter (in_window s e) data \<and> page st' = page st \<and>
     (shouldContinue st' \<longrightarrow> shouldContinue st)"
proof (induction data arbitrary: st)
  case Nil
  then show ?case by simp
next
  case (Cons pr data)
  from Cons.prems obtain st1 where 1: "for_pr s e pr st = Inr st1"
    and 2: "for_data s e data st1 = Inr st'"
    by (auto split: sum.splits)
  from for_pr_Inr [OF 1] Cons.IH [OF 2] show ?case by simp
qed

lemma for_data_trigger:
  "for_data s e data st = Inr st' \<Longrightarrow> pr \<in> set data \<Longrightarrow> merged_time pr = Some t \<Longrightarrow>
     dt_lt t s \<Longrightarrow> \<not> shouldContinue st'"
proof (induction data arbitrary: st)
  case Nil
  then show ?case by simp
next
  case (Cons x data)
  from Cons.prems(1) obtain st1 where 1: "for_pr s e x st = Inr st1"
    and 2: "for_data s e data st1 = Inr st'"
    by (auto split: sum.splits)
  show ?case
  proof (cases "pr = x")
    case True
    with for_pr_Inr [OF 1] Cons.prems have "\<not> shouldContinue st1" by simp
    with for_data_Inr [OF 2] show ?thesis by simp
  next
    case False
    with Cons.prems have "pr \<in> set data" by simp
    with Cons.IH [OF 2] Cons.prems show ?thesis by simp
  qed
qed

lemma for_data_append:
  "for_data s e (xs @ ys) st =
     (case for_data s e xs st of Inl err \<Rightarrow> Inl err | Inr st1 \<Rightarrow> for_data s e ys st1)"
  by (induction xs arbitrary: st) (auto split: sum.splits)

lemma for_data_all_in_window:
  "\<forall>pr \<in> set data. in_window s e pr \<Longrightarrow>
     \<exists>t. for_data s e data st =
       Inr (st\<lparr>prs := prs st @ data, merged_at_var := (if data = [] then merged_at_var st else Some t)\<rparr>)"
proof (induction data arbitrary: st)
  case Nil
  then show ?case by simp
next
  case (Cons pr data)
  from Cons.prems obtain t where t: "merged_time pr = Some t" "dt_le s t" "dt_le t e"
    by (auto simp: in_window_def split: option.splits)
  then have nlt: "\<not> dt_lt t s" using dt_lt_not_le by blast
  define st1 where "st1 = st\<lparr>prs := prs st @ [pr], merged_at_var := Some t\<rparr>"
  have 1: "for_pr s e pr st = Inr st1"
    using t nlt by (simp add: for_pr_timestamp st1_def)
  from Cons.prems have "\<forall>pr \<in> set data. in_window s e pr" by simp
  from Cons.IH [OF this, of st1] obtain t' where
    "for_data s e data st1 =
       Inr (st1\<lparr>prs := prs st1 @ data, merged_at_var := (if data = [] then merged_at_var st1 else Some t')\<rparr>)"
    by blast
  with 1 show ?case by (auto simp: st1_def)
qed

section \<open>The loop over the pages\<close>

lemma items_of_Inr: "api p = Inr data \<Longrightarrow> items_of api p = data"
  by (simp add: items_of_def)

lemma fetch_loop_stopped:
  "\<not> shouldContinue st \<Longrightarrow> fetch_loop fuel api s e st = (reqs, res) \<Longrightarrow> reqs = []"
  by (cases fuel) auto

lemma fetch_loop_requests:
  "fetch_loop fuel api s e st = (reqs, res) \<Longrightarrow> reqs = [page st ..< page st + length reqs]"
proof (induction fuel arbitrary: st reqs res)
  case 0
  then show ?case by simp
next
  case (Suc fuel)
  show ?case
  proof (cases "shouldContinue st")
    case False
    with Suc.prems show ?thesis by simp
  next
    case True
    show ?thesis
    proof (cases "api (page st)")
      case (Inl err)
      with True Suc.prems show ?thesis by auto
    next
      case (Inr data)
      show ?thesis
      proof (cases "data = []")
        case True
        with \<open>shouldContinue st\<close> Inr Suc.prems show ?thesis by auto
      next
        case False
        show ?thesis
        proof (cases "for_data s e data st")
          case (Inl err)
          with \<open>shouldContinue st\<close> \<open>api (page st) = Inr data\<close> False Suc.prems show ?thesis by auto
        next
          case st': (Inr st')
          obtain reqs' res' where rec: "fetch_loop fuel api s e (st'\<lparr>page := page st' + 1\<rparr>) = (reqs', res')"
            by (cases "fetch_loop fuel api s e (st'\<lparr>page := page st' + 1\<rparr>)")
          with \<open>shouldContinue st\<close> \<open>api (page st) = Inr data\<close> False st' Suc.prems
          have reqs: "reqs = page st # reqs'" by simp
          from Suc.IH [OF rec] for_data_Inr [OF st']
          have r': "reqs' = [Suc (page st) ..< Suc (page st) + length reqs']" by simp
          have "[page st ..< Suc (page st) + length reqs'] =
                  page st # [Suc (page st) ..< Suc (page st) + length reqs']"
            by (rule upt_conv_Cons) simp
          then have "page st # reqs' = [page st ..< Suc (page st) + length reqs']"
            by (simp only: r' [symmetric])
          also have "Suc (page st) + length reqs' = page st + length (page st # reqs')"
            by simp
          finally show ?thesis unfolding reqs .
        qed
      qed
    qed
  qed
qed

lemma fetch_loop_stops:
  "fetch_loop fuel api s e st = (reqs, res) \<Longrightarrow> p \<in> set reqs \<Longrightarrow>
     pr \<in> set (items_of api p) \<Longrightarrow> merged_time pr = Some t \<Longrightarrow> dt_lt t s \<Longrightarrow>
     reqs = [page st ..< Suc p]"
proof (induction fuel arbitrary: st reqs res)
  case 0
  then show ?case by simp
next
  case (Suc fuel)
  from Suc.prems(1,2) have cont: "shouldContinue st"
    by (auto split: if_splits)
  show ?case
  proof (cases "api (page st)")
    case (Inl err)
    with cont Suc.prems(1) have "reqs = [page st]" by auto
    with Suc.prems(2,3) Inl show ?thesis by (simp add: items_of_def)
  next
    case (Inr data)
    show ?thesis
    proof (cases "data = []")
      case True
      with cont Inr Suc.prems(1) have "reqs = [page st]" by auto
      with Suc.prems(2,3) Inr True show ?thesis by (simp add: items_of_def)
    next
      case False
      show ?thesis
      proof (cases "for_data s e data st")
        case (Inl err)
        with cont Inr False Suc.prems(1) have "reqs = [page st]" by auto
        with Suc.prems(2) show ?thesis by simp
      next
        case st': (Inr st')
        obtain reqs' res' where rec: "fetch_loop fuel api s e (st'\<lparr>page := page st' + 1\<rparr>) = (reqs', res')"
          by (cases "fetch_loop fuel api s e (st'\<lparr>page := page st' + 1\<rparr>)")
        with cont Inr False st' Suc.prems(1) have reqs: "reqs = page st # reqs'" by simp
        have pg: "page st' = page st" using for_data_Inr [OF st'] by simp
        show ?thesis
        proof (cases "p = page st")
          case True
          with Suc.prems(3) Inr have "pr \<in> set data" by (simp add: items_of_def)
          from for_data_trigger [OF st' this Suc.prems(4,5)]
          have "reqs' = []" using fetch_loop_stopped [OF _ rec] by simp
          with reqs True show ?thesis by simp
        next
          case False
          with Suc.prems(2) reqs have "p \<in> set reqs'" by simp
          from Suc.IH [OF rec this Suc.prems(3,4,5)]
          have r': "reqs' = [Suc (page st) ..< Suc p]" by (simp add: pg)
          with \<open>p \<in> set reqs'\<close> have "page st < Suc p" by (cases "page st < Suc p") auto
          then have "[page st ..< Suc p] = page st # [Suc (page st) ..< Suc p]"
            by (rule upt_conv_Cons)
          with reqs r' show ?thesis by simp
        qed
      qed
    qed
  qed
qed

lemma fetch_loop_result:
  "fetch_loop fuel api s e st = (reqs, Some (Inr result)) \<Longrightarrow>
     result = prs st @ filter (in_window s e) (concat (map (items_of api) reqs))"
proof (induction fuel arbitrary: st reqs)
  case 0
  then show ?case by simp
next
  case (Suc fuel)
  show ?case
  proof (cases "shouldContinue st")
    case False
    with Suc.prems show ?thesis by simp
  next
    case cont: True
    show ?thesis
    proof (cases "api (page st)")
      case (Inl err)
      with cont Suc.prems show ?thesis by simp
    next
      case (Inr data)
      show ?thesis
      proof (cases "data = []")
        case True
        with cont Inr Suc.prems show ?thesis by (auto simp: items_of_def)
      next
        case False
        show ?thesis
        proof (cases "for_data s e data st")
          case (Inl err)
          with cont Inr False Suc.prems show ?thesis by simp
        next
          case st': (Inr st')
          obtain reqs' res' where rec: "fetch_loop fuel api s e (st'\<lparr>page := page st' + 1\<rparr>) = (reqs', res')"
            by (cases "fetch_loop fuel api s e (st'\<lparr>page := page st' + 1\<rparr>)")
          with cont Inr False st' Suc.prems have reqs: "reqs = page st # reqs'"
            and res': "res' = Some (Inr result)" by simp_all
          from Suc.IH [OF rec [unfolded res']] for_data_Inr [OF st']
          have "result = prs st @ filter (in_window s e) data
                  @ filter (in_window s e) (concat (map (items_of api) reqs'))" by simp
          with reqs items_of_Inr [of api "page st" data, OF Inr] show ?thesis by simp
        qed
      qed
    qed
  qed
qed

lemma fetch_loop_empty_page:
  "api p = Inr [] \<Longrightarrow> page st \<le> p \<Longrightarrow> p - page st < fuel \<Longrightarrow>
     \<exists>reqs r. fetch_loop fuel api s e st = (reqs, Some r) \<and> set reqs \<subseteq> {page st .. p} \<and>
       (p \<in> set reqs \<longrightarrow> (\<exists>result. r = Inr result))"
proof (induction fuel arbitrary: st)
  case 0
  then show ?case by simp
next
  case (Suc fuel)
  show ?case
  proof (cases "shouldContinue st")
    case False
    then show ?thesis by simp
  next
    case cont: True
    show ?thesis
    proof (cases "page st = p")
      case True
      with cont Suc.prems show ?thesis by simp
    next
      case np: False
      show ?thesis
      proof (cases "api (page st)")
        case (Inl err)
        with cont np Suc.prems show ?thesis by simp
      next
        case (Inr data)
        show ?thesis
        proof (cases "data = []")
          case True
          with cont Inr np Suc.prems show ?thesis by simp
        next
          case False
          show ?thesis
          proof (cases "for_data s e data st")
            case (Inl err)
            with cont Inr False np Suc.prems show ?thesis by simp
          next
            case st': (Inr st')
            have pg: "page st' = page st" using for_data_Inr [OF st'] by simp
            from np Suc.prems pg have "page (st'\<lparr>page := page st' + 1\<rparr>) \<le> p"
              and "p - page (st'\<lparr>page := page st' + 1\<rparr>) < fuel" by simp_all
            from Suc.IH [OF Suc.prems(1) this]
            obtain reqs' r where rec: "fetch_loop fuel api s e (st'\<lparr>page := page st' + 1\<rparr>) = (reqs', Some r)"
              and sub: "set reqs' \<subseteq> {page st + 1 .. p}"
              and ret: "p \<in> set reqs' \<longrightarrow> (\<exists>result. r = Inr result)"
              by (auto simp: pg)
            from cont Inr False st' rec
            have "fetch_loop (Suc fuel) api s e st = (page st # reqs', Some r)" by simp
            moreover from sub Suc.prems(2) have "set (page st # reqs') \<subseteq> {page st .. p}" by auto
            moreover from ret np have "p \<in> set (page st # reqs') \<longrightarrow> (\<exists>result. r = Inr result)"
              by auto
            ultimately show ?thesis by blast
          qed
        qed
      qed
    qed
  qed
qed

lemma get_merged_prs_in_window:
  assumes "get_merged_prs fuel api s e = (pages, Some (Inr merged_prs))"
  shows "\<forall>pr \<in> set merged_prs. in_window s e pr"
  using fetch_loop_result [OF assms [unfolded get_merged_prs_def]] by simp

section \<open>The example data, evaluated\<close>

lemmas strptime_eval =
  strptime_def field_Y_def field_2_def field_d_def is_digit_def nat_of_digits_def digit_val_def
  valid_datetime_def days_in_month_def mdays_def isleap_def

lemma ex_before_time:
  "merged_time ex_before =
     Some \<lparr>year = 2024, month = 2, day = 10, hour = 8, minute = 30, second = 0, microsecond = 0\<rparr>"
  by (simp add: ex_before_def ex_pr_def merged_time_def truthy_def strptime_eval)

lemma ex_inside_time:
  "merged_time ex_inside =
     Some \<lparr>year = 2024, month = 3, day = 15, hour = 12, minute = 0, second = 0, microsecond = 0\<rparr>"
  by (simp add: ex_inside_def ex_pr_def merged_time_def truthy_def strptime_eval)

lemma ex_inside'_time:
  "merged_time ex_inside' =
     Some \<lparr>year = 2024, month = 3, day = 20, hour = 9, minute = 0, second = 0, microsecond = 0\<rparr>"
  by (simp add: ex_inside'_def ex_pr_def merged_time_def truthy_def strptime_eval)

lemma ex_after_time:
  "merged_time ex_after =
     Some \<lparr>year = 2024, month = 4, day = 2, hour = 9, minute = 0, second = 0, microsecond = 0\<rparr>"
  by (simp add: ex_after_def ex_pr_def merged_time_def truthy_def strptime_eval)

lemma ex_unmerged_falsy: "\<not> truthy (merged_at ex_unmerged)"
  by (simp add: ex_unmerged_def ex_pr_def truthy_def)

lemmas ex_times = ex_before_time ex_inside_time ex_inside'_time ex_after_time

lemma ex_unmerged_time: "merged_time ex_unmerged = None"
  by (simp add: merged_time_def ex_unmerged_falsy)

lemma ex_windows:
  "\<not> in_window ex_start ex_end ex_before" "in_window ex_start ex_end ex_inside"
  "in_window ex_start ex_end ex_inside'" "\<not> in_window ex_start ex_end ex_after"
  "\<not> in_window ex_start ex_end ex_unmerged"
  by (simp_all add: in_window_def ex_times ex_unmerged_time dt_le_def dt_key_def
      ex_start_def ex_end_def)

lemma ex_for_pr:
  "for_pr ex_start ex_end ex_before st =
     Inr (st\<lparr>merged_at_var := merged_time ex_before, shouldContinue := False\<rparr>)"
  "for_pr ex_start ex_end ex_inside st =
     Inr (st\<lparr>prs := prs st @ [ex_inside], merged_at_var := merged_time ex_inside\<rparr>)"
  "for_pr ex_start ex_end ex_inside' st =
     Inr (st\<lparr>prs := prs st @ [ex_inside'], merged_at_var := merged_time ex_inside'\<rparr>)"
  "for_pr ex_start ex_end ex_after st =
     Inr (st\<lparr>merged_at_var := merged_time ex_after\<rparr>)"
  by (simp_all add: for_pr_timestamp [OF ex_before_time] for_pr_timestamp [OF ex_inside_time]
      for_pr_timestamp [OF ex_inside'_time] for_pr_timestamp [OF ex_after_time] ex_times
      dt_le_def dt_lt_def dt_key_def ex_start_def ex_end_def)

lemma fuel_3: "3 = Suc (Suc (Suc 0))" by simp

lemma fuel_4: "4 = Suc (Suc (Suc (Suc 0)))" by simp

lemma ex_api_stop_run:
  "get_merged_prs 3 ex_api_stop ex_start ex_end = ([1], Some (Inr [ex_inside, ex_inside']))"
  by (simp add: get_merged_prs_def fuel_3 ex_api_stop_def ex_for_pr)

lemma ex_api_window_run:
  "get_merged_prs 3 ex_api_window ex_start ex_end = ([1, 2], Some (Inr [ex_inside]))"
  by (simp add: get_merged_prs_def fuel_3 ex_api_window_def ex_for_pr)

lemma ex_api_two_run:
  "get_merged_prs 3 ex_api_two ex_start ex_end = ([1, 2], Some (Inr [ex_inside, ex_inside']))"
  by (simp add: get_merged_prs_def fuel_3 ex_api_two_def ex_for_pr)

lemma ex_enddate: "calculate_enddate_if_needed ex_start None = Inr ex_end"
  by (simp add: calculate_enddate_if_needed_def monthrange_ndays_def dt_replace_def
      valid_datetime_def days_in_month_def mdays_def isleap_def ex_start_def ex_end_def)

section \<open>What the fetcher does with an item\<close>

text \<open>
  The body of the loop, case by case. An item with a merge timestamp in the window is
  appended to the result and leaves the flag as it is. An item with a merge timestamp
  outside the window and not before the start is skipped: the result and the flag stay as
  they are. An item with a merge timestamp before the start is skipped and clears the flag.
  An item with no merge timestamp leaves the whole state as it is once an earlier item of
  the run has been processed: after any processed item the variable \<open>merged_at\<close> is
  bound and agrees with the flag.
\<close>

theorem for_pr_appends_or_skips:
  "(in_window s e pr \<longrightarrow>
      (\<exists>t. for_pr s e pr st = Inr (st\<lparr>prs := prs st @ [pr], merged_at_var := Some t\<rparr>))) \<and>
   (merged_time pr = Some t \<and> \<not> in_window s e pr \<and> \<not> dt_lt t s \<longrightarrow>
      for_pr s e pr st = Inr (st\<lparr>merged_at_var := Some t\<rparr>)) \<and>
   (merged_time pr = Some t \<and> dt_lt t s \<longrightarrow>
      for_pr s e pr st = Inr (st\<lparr>merged_at_var := Some t, shouldContinue := False\<rparr>)) \<and>
   (\<not> truthy (merged_at pr) \<and> merged_at_var st \<noteq> None \<and> flag_consistent s st \<longrightarrow>
      for_pr s e pr st = Inr st) \<and>
   (for_pr s e pr st = Inr st' \<longrightarrow> merged_at_var st' \<noteq> None \<and> flag_consistent s st')"
proof (intro conjI impI)
  assume "in_window s e pr"
  then obtain t' where t': "merged_time pr = Some t'" "dt_le s t'" "dt_le t' e"
    by (auto simp: in_window_def split: option.splits)
  then have "\<not> dt_lt t' s" using dt_lt_not_le by blast
  with t' have "for_pr s e pr st = Inr (st\<lparr>prs := prs st @ [pr], merged_at_var := Some t'\<rparr>)"
    by (simp add: for_pr_timestamp)
  then show "\<exists>t. for_pr s e pr st = Inr (st\<lparr>prs := prs st @ [pr], merged_at_var := Some t\<rparr>)" ..
next
  assume "merged_time pr = Some t \<and> \<not> in_window s e pr \<and> \<not> dt_lt t s"
  then show "for_pr s e pr st = Inr (st\<lparr>merged_at_var := Some t\<rparr>)"
    by (auto simp: for_pr_timestamp in_window_def)
next
  assume a: "merged_time pr = Some t \<and> dt_lt t s"
  then have "\<not> dt_le s t" using dt_lt_not_le by blast
  with a show "for_pr s e pr st = Inr (st\<lparr>merged_at_var := Some t, shouldContinue := False\<rparr>)"
    by (simp add: for_pr_timestamp)
next
  assume "\<not> truthy (merged_at pr) \<and> merged_at_var st \<noteq> None \<and> flag_consistent s st"
  then show "for_pr s e pr st = Inr st"
    by (auto simp: for_pr_no_timestamp flag_consistent_def)
next
  assume "for_pr s e pr st = Inr st'"
  then show "merged_at_var st' \<noteq> None" "flag_consistent s st'"
    using for_pr_flag_consistent by blast+
qed

theorem for_pr_appends_or_skips_witness:
  "in_window ex_start ex_end ex_inside \<and>
   for_pr ex_start ex_end ex_inside fetch_init =
     Inr (fetch_init\<lparr>prs := [ex_inside], merged_at_var := merged_time ex_inside\<rparr>) \<and>
   \<not> in_window ex_start ex_end ex_after \<and>
   for_pr ex_start ex_end ex_after fetch_init = Inr (fetch_init\<lparr>merged_at_var := merged_time ex_after\<rparr>) \<and>
   dt_lt (the (merged_time ex_before)) ex_start \<and>
   for_pr ex_start ex_end ex_before fetch_init =
     Inr (fetch_init\<lparr>merged_at_var := merged_time ex_before, shouldContinue := False\<rparr>) \<and>
   \<not> truthy (merged_at ex_unmerged) \<and>
   flag_consistent ex_start (fetch_init\<lparr>prs := [ex_inside], merged_at_var := merged_time ex_inside\<rparr>) \<and>
   for_pr ex_start ex_end ex_unmerged (fetch_init\<lparr>prs := [ex_inside], merged_at_var := merged_time ex_inside\<rparr>) =
     Inr (fetch_init\<lparr>prs := [ex_inside], merged_at_var := merged_time ex_inside\<rparr>)"
proof -
  let ?st = "fetch_init\<lparr>prs := [ex_inside], merged_at_var := merged_time ex_inside\<rparr>"
  have lt: "dt_lt \<lparr>year = 2024, month = 2, day = 10, hour = 8, minute = 30, second = 0, microsecond = 0\<rparr> ex_start"
    by (simp add: dt_lt_def dt_key_def ex_start_def)
  have nlt: "\<not> dt_lt \<lparr>year = 2024, month = 4, day = 2, hour = 9, minute = 0, second = 0, microsecond = 0\<rparr> ex_start"
    by (simp add: dt_lt_def dt_key_def ex_start_def)
  have fc: "flag_consistent ex_start ?st"
    by (simp add: flag_consistent_def ex_times dt_lt_def dt_key_def ex_start_def)
  have bound: "merged_at_var ?st \<noteq> None" by (simp add: ex_times)
  note step = for_pr_appends_or_skips
  from step [where s = ex_start and e = ex_end and pr = ex_inside and st = fetch_init] ex_windows(2)
  have 1: "for_pr ex_start ex_end ex_inside fetch_init = Inr ?st"
    by (simp add: ex_for_pr fetch_init_def)
  from step [where s = ex_start and e = ex_end and pr = ex_after and st = fetch_init and t = "the (merged_time ex_after)"] ex_windows(4) nlt
  have 2: "for_pr ex_start ex_end ex_after fetch_init = Inr (fetch_init\<lparr>merged_at_var := merged_time ex_after\<rparr>)"
    by (simp add: ex_times)
  from step [where s = ex_start and e = ex_end and pr = ex_before and st = fetch_init and t = "the (merged_time ex_before)"] lt
  have 3: "for_pr ex_start ex_end ex_before fetch_init =
     Inr (fetch_init\<lparr>merged_at_var := merged_time ex_before, shouldContinue := False\<rparr>)"
    by (simp add: ex_times)
  from step [where s = ex_start and e = ex_end and pr = ex_unmerged and st = ?st] ex_unmerged_falsy fc bound
  have 4: "for_pr ex_start ex_end ex_unmerged ?st = Inr ?st" by blast
  from 1 2 3 4 fc lt show ?thesis
    using ex_windows ex_unmerged_falsy by (simp add: ex_times)
qed

text \<open>
  An item that is skipped because it was merged before the start ends the fetching after
  its page, where an item that is skipped because it was merged after the end does not.
\<close>

theorem skipped_item_affects_pages:
  "\<not> in_window ex_start ex_end ex_before \<and> \<not> in_window ex_start ex_end ex_after \<and>
   get_merged_prs 4 (ex_api_skip ex_after) ex_start ex_end =
     ([1, 2, 3], Some (Inr [ex_inside, ex_inside'])) \<and>
   get_merged_prs 4 (ex_api_skip ex_before) ex_start ex_end = ([1], Some (Inr [ex_inside]))"
  by (simp add: ex_windows get_merged_prs_def fuel_4 ex_api_skip_def ex_for_pr)

text \<open>
  C2 fails on the code. The pull request 9 was closed without a merge and is the first
  item of page 1, before the pull request 42, which was merged in the window. Line 50
  compares the variable \<open>merged_at\<close>, which only line 39 assigns and which is still
  unbound: the fetcher raises \<open>UnboundLocalError\<close> and so does the whole run, where the
  claim wants the item skipped and the pull request 42 returned. With the same two items in
  the other order the item is skipped and the fetcher returns the pull request 42.
\<close>

theorem unmerged_first_item_raises:
  "\<not> truthy (merged_at ex_unmerged) \<and>
   get_merged_prs 4 ex_api_unmerged ex_start ex_end = ([1], Some (Inl UnboundLocalError)) \<and>
   collect 4 ex_api_unmerged ex_comments ex_repo ex_start None =
     ([1], [], Some (Inl UnboundLocalError)) \<and>
   get_merged_prs 4 ex_api_unmerged_later ex_start ex_end = ([1, 2], Some (Inr [ex_inside]))"
proof -
  have 1: "get_merged_prs 4 ex_api_unmerged ex_start ex_end = ([1], Some (Inl UnboundLocalError))"
    by (simp add: get_merged_prs_def fuel_4 ex_api_unmerged_def for_pr_no_timestamp [OF ex_unmerged_falsy])
  have skip: "for_pr ex_start ex_end ex_unmerged (st\<lparr>merged_at_var := merged_time ex_inside\<rparr>) =
      Inr (st\<lparr>merged_at_var := merged_time ex_inside\<rparr>)" for st
    by (simp add: for_pr_no_timestamp [OF ex_unmerged_falsy] ex_times dt_lt_def dt_key_def ex_start_def)
  have 2: "get_merged_prs 4 ex_api_unmerged_later ex_start ex_end = ([1, 2], Some (Inr [ex_inside]))"
    using skip [of "\<lparr>prs = [ex_inside], page = 1, merged_at_var = None, shouldContinue = True\<rparr>"]
    by (simp add: get_merged_prs_def fuel_4 ex_api_unmerged_later_def ex_for_pr)
  from 1 2 ex_unmerged_falsy show ?thesis by (simp add: collect_def ex_enddate)
qed

section \<open>Which pages are fetched, and what is returned\<close>

text \<open>
  C3. In every run and every prefix of a run, if a page that was requested holds an item
  whose merge timestamp is before the start, then the pages requested are 1 up to that
  page: no page after it is requested.
\<close>

theorem get_merged_prs_early_stop:
  assumes "get_merged_prs fuel api start_date end_date = (reqs, res)"
    and "p \<in> set reqs"
    and "pr \<in> set (items_of api p)"
    and "merged_time pr = Some t"
    and "dt_lt t start_date"
  shows "reqs = [1 ..< Suc p]"
  using fetch_loop_stops [OF assms(1) [unfolded get_merged_prs_def] assms(2-5)] by simp

theorem get_merged_prs_early_stop_witness:
  "get_merged_prs 3 ex_api_stop ex_start ex_end = ([1], Some (Inr [ex_inside, ex_inside'])) \<and>
   ex_before \<in> set (items_of ex_api_stop 1) \<and>
   dt_lt (the (merged_time ex_before)) ex_start \<and>
   [1] = [1 ..< Suc 1]"
proof -
  have lt: "dt_lt \<lparr>year = 2024, month = 2, day = 10, hour = 8, minute = 30, second = 0, microsecond = 0\<rparr> ex_start"
    by (simp add: dt_lt_def dt_key_def ex_start_def)
  have it: "ex_before \<in> set (items_of ex_api_stop 1)"
    by (simp add: items_of_def ex_api_stop_def)
  from get_merged_prs_early_stop [OF ex_api_stop_run _ it ex_before_time lt]
  show ?thesis using ex_api_stop_run it lt by (simp add: ex_before_time)
qed

text \<open>
  C4. When the fetcher returns, a pull request with merge timestamp \<open>T\<close> on a page that was
  requested is in the result if and only if \<open>T\<close> is between the start and the end, both
  included; the result is the items of the requested pages that are in the window, in
  their order.
\<close>

theorem get_merged_prs_window_iff:
  assumes "get_merged_prs fuel api start_date end_date = (reqs, Some (Inr result))"
    and "p \<in> set reqs"
    and "pr \<in> set (items_of api p)"
    and "merged_time pr = Some T"
  shows "(pr \<in> set result \<longleftrightarrow> dt_le start_date T \<and> dt_le T end_date) \<and>
         result = filter (in_window start_date end_date) (concat (map (items_of api) reqs))"
proof -
  from fetch_loop_result [OF assms(1) [unfolded get_merged_prs_def]]
  have res: "result = filter (in_window start_date end_date) (concat (map (items_of api) reqs))"
    by simp
  from assms(2,3) have "pr \<in> set (concat (map (items_of api) reqs))" by auto
  with res assms(4) show ?thesis by (auto simp: in_window_def)
qed

theorem get_merged_prs_window_iff_witness:
  "get_merged_prs 3 ex_api_window ex_start ex_end = ([1, 2], Some (Inr [ex_inside])) \<and>
   ex_after \<in> set (items_of ex_api_window 1) \<and> merged_time ex_after \<noteq> None \<and>
   (ex_after \<in> set [ex_inside] \<longleftrightarrow>
      dt_le ex_start (the (merged_time ex_after)) \<and> dt_le (the (merged_time ex_after)) ex_end)"
proof -
  have it: "ex_after \<in> set (items_of ex_api_window 1)"
    by (simp add: items_of_def ex_api_window_def)
  have p: "1 \<in> set [1, 2::nat]" by simp
  from get_merged_prs_window_iff [OF ex_api_window_run p it ex_after_time, THEN conjunct1]
  show ?thesis using ex_api_window_run it by (simp add: ex_after_time)
qed

text \<open>
  C9. If page \<open>p\<close> of the API is empty, then with fuel for \<open>p\<close> iterations the loop
  ends, requests no page after \<open>p\<close> and, when it does request \<open>p\<close>, returns without an
  exception. In particular, with 100 items in the window on page 1 and an empty page 2, the
  fetcher requests the pages 1 and 2 and returns the 100 items.
\<close>

theorem get_merged_prs_empty_page_terminates:
  "(api p = Inr [] \<and> 1 \<le> p \<and> p \<le> fuel \<longrightarrow>
      (\<exists>reqs r. get_merged_prs fuel api start_date end_date = (reqs, Some r) \<and>
         set reqs \<subseteq> {1 .. p} \<and> (p \<in> set reqs \<longrightarrow> (\<exists>result. r = Inr result)))) \<and>
   (api 1 = Inr data \<and> length data = 100 \<and> (\<forall>pr \<in> set data. in_window start_date end_date pr) \<and>
    api 2 = Inr [] \<and> 2 \<le> fuel \<longrightarrow>
      get_merged_prs fuel api start_date end_date = ([1, 2], Some (Inr data)))"
proof (intro conjI impI)
  assume a: "api p = Inr [] \<and> 1 \<le> p \<and> p \<le> fuel"
  then have "p - 1 < fuel" by arith
  with a show "\<exists>reqs r. get_merged_prs fuel api start_date end_date = (reqs, Some r) \<and>
         set reqs \<subseteq> {1 .. p} \<and> (p \<in> set reqs \<longrightarrow> (\<exists>result. r = Inr result))"
    using fetch_loop_empty_page [of api p
        "\<lparr>prs = [], page = 1, merged_at_var = None, shouldContinue = True\<rparr>" fuel start_date end_date]
    by (simp add: get_merged_prs_def)
next
  assume a: "api 1 = Inr data \<and> length data = 100 \<and>
    (\<forall>pr \<in> set data. in_window start_date end_date pr) \<and> api 2 = Inr [] \<and> 2 \<le> fuel"
  then obtain k where fuel: "fuel = Suc (Suc k)" by (metis Suc_le_D numeral_2_eq_2 Suc_le_mono)
  from a have ne: "data \<noteq> []" by auto
  from a obtain t where
    "for_data start_date end_date data \<lparr>prs = [], page = 1, merged_at_var = None, shouldContinue = True\<rparr> =
       Inr \<lparr>prs = data, page = 1, merged_at_var = Some t, shouldContinue = True\<rparr>"
    using for_data_all_in_window [of data start_date end_date
        "\<lparr>prs = [], page = 1, merged_at_var = None, shouldContinue = True\<rparr>"] ne
    by auto
  with a ne show "get_merged_prs fuel api start_date end_date = ([1, 2], Some (Inr data))"
    by (simp add: get_merged_prs_def fuel numeral_2_eq_2)
qed

theorem get_merged_prs_empty_page_terminates_witness:
  "ex_api_100 1 = Inr (replicate 100 ex_inside) \<and> ex_api_100 2 = Inr [] \<and>
   length (replicate 100 ex_inside) = 100 \<and> in_window ex_start ex_end ex_inside \<and>
   get_merged_prs 2 ex_api_100 ex_start ex_end = ([1, 2], Some (Inr (replicate 100 ex_inside)))"
  using get_merged_prs_empty_page_terminates [of ex_api_100 2 2 ex_start ex_end "replicate 100 ex_inside"]
  by (simp add: ex_api_100_def ex_windows)

text \<open>
  C10. When a page holds an item \<open>trig\<close> whose merge timestamp is before the start, and
  the page is processed without an exception, the loop over the page goes on after
  \<open>trig\<close> with the flag cleared: the items \<open>ys\<close> after it are processed and those in the
  window are appended. The fetcher then returns, after this page, the result with them.
\<close>

theorem for_data_after_trigger:
  assumes "for_data s e (xs @ trig # ys) st = Inr st'"
    and "merged_time trig = Some T"
    and "dt_lt T s"
  shows "(\<exists>st1. for_data s e (xs @ [trig]) st = Inr st1 \<and> \<not> shouldContinue st1 \<and>
            for_data s e ys st1 = Inr st' \<and>
            prs st' = prs st1 @ filter (in_window s e) ys) \<and>
         \<not> shouldContinue st' \<and>
         (shouldContinue st \<and> api (page st) = Inr (xs @ trig # ys) \<longrightarrow>
            fetch_loop (Suc (Suc fuel)) api s e st =
              ([page st], Some (Inr (prs st @ filter (in_window s e) xs @ filter (in_window s e) ys))))"
proof (intro conjI impI)
  have split: "xs @ trig # ys = (xs @ [trig]) @ ys" by simp
  from assms(1) obtain st1 where 1: "for_data s e (xs @ [trig]) st = Inr st1"
    and 2: "for_data s e ys st1 = Inr st'"
    unfolding split for_data_append by (auto split: sum.splits)
  have "\<not> shouldContinue st1"
    using for_data_trigger [OF 1 _ assms(2,3)] by simp
  with 1 2 for_data_Inr [OF 2]
  show "\<exists>st1. for_data s e (xs @ [trig]) st = Inr st1 \<and> \<not> shouldContinue st1 \<and>
            for_data s e ys st1 = Inr st' \<and> prs st' = prs st1 @ filter (in_window s e) ys"
    by blast
next
  show stop: "\<not> shouldContinue st'"
    using for_data_trigger [OF assms(1) _ assms(2,3)] by simp
  assume a: "shouldContinue st \<and> api (page st) = Inr (xs @ trig # ys)"
  have "prs st' = prs st @ filter (in_window s e) xs @ filter (in_window s e) ys"
    using for_data_Inr [OF assms(1)] not_in_window_before [OF assms(2,3)] by simp
  with a assms(1) stop
  show "fetch_loop (Suc (Suc fuel)) api s e st =
      ([page st], Some (Inr (prs st @ filter (in_window s e) xs @ filter (in_window s e) ys)))"
    by simp
qed

theorem for_data_after_trigger_witness:
  "for_data ex_start ex_end ([] @ ex_before # [ex_inside]) fetch_init =
     Inr (fetch_init\<lparr>prs := [ex_inside], merged_at_var := merged_time ex_inside, shouldContinue := False\<rparr>) \<and>
   dt_lt (the (merged_time ex_before)) ex_start \<and>
   fetch_loop (Suc (Suc 0)) ex_api_tail ex_start ex_end fetch_init = ([1], Some (Inr [ex_inside]))"
proof -
  have run: "for_data ex_start ex_end ([] @ ex_before # [ex_inside]) fetch_init =
     Inr (fetch_init\<lparr>prs := [ex_inside], merged_at_var := merged_time ex_inside, shouldContinue := False\<rparr>)"
    by (simp add: ex_for_pr fetch_init_def)
  have lt: "dt_lt \<lparr>year = 2024, month = 2, day = 10, hour = 8, minute = 30, second = 0, microsecond = 0\<rparr> ex_start"
    by (simp add: dt_lt_def dt_key_def ex_start_def)
  from for_data_after_trigger [OF run ex_before_time lt, of ex_api_tail 0]
  show ?thesis using run lt by (simp add: ex_before_time ex_windows fetch_init_def ex_api_tail_def)
qed

section \<open>The scan of the comments\<close>

lemma py_in_sublist: "py_in sub s \<longleftrightarrow> sublist sub s"
  by (induction s) (simp_all add: sublist_Cons_right)

lemma py_in_iff: "py_in sub s \<longleftrightarrow> (\<exists>p q. s = p @ sub @ q)"
  by (simp add: py_in_sublist sublist_def)

lemma for_comments_eq:
  "for_comments repo pr comments acc =
     acc @ map (force_merge_record repo pr)
             (filter (\<lambda>c. py_in (py ''FORCE_MERGE'') (body c)) comments)"
  by (induction comments arbitrary: acc) simp_all

lemma for_merged_prs_Inr:
  "for_merged_prs gc repo merged_prs st = (reqs, Inr st') \<Longrightarrow>
     reqs = map number merged_prs \<and>
     force_merged_prs st' = force_merged_prs st @
       concat (map (\<lambda>pr. map (force_merge_record repo pr)
                 (filter (\<lambda>c. py_in (py ''FORCE_MERGE'') (body c)) (comments_of gc (number pr)))) merged_prs) \<and>
     pr_merged_at st' = (if merged_prs = [] then pr_merged_at st else Some (merged_at (last merged_prs)))"
proof (induction merged_prs arbitrary: st reqs)
  case Nil
  then show ?case by simp
next
  case (Cons pr merged_prs)
  from Cons.prems obtain cs where cs: "gc (number pr) = Inr cs"
    by (cases "gc (number pr)") auto
  define st1 where "st1 = \<lparr>force_merged_prs = for_comments repo pr cs (force_merged_prs st),
                   pr_merged_at = Some (merged_at pr)\<rparr>"
  obtain reqs' res' where rec: "for_merged_prs gc repo merged_prs st1 = (reqs', res')"
    by (cases "for_merged_prs gc repo merged_prs st1")
  with Cons.prems cs have reqs: "reqs = number pr # reqs'" and res': "res' = Inr st'"
    by (simp_all add: st1_def)
  from Cons.IH [OF rec [unfolded res']] reqs cs show ?case
    by (simp add: st1_def for_comments_eq comments_of_def)
qed

lemma for_merged_prs_requests:
  "for_merged_prs gc repo merged_prs st = (reqs, res) \<Longrightarrow> set reqs \<subseteq> number ` set merged_prs"
proof (induction merged_prs arbitrary: st reqs res)
  case Nil
  then show ?case by simp
next
  case (Cons pr merged_prs)
  show ?case
  proof (cases "gc (number pr)")
    case (Inl err)
    with Cons.prems show ?thesis by auto
  next
    case (Inr cs)
    define st1 where "st1 = \<lparr>force_merged_prs = for_comments repo pr cs (force_merged_prs st),
                   pr_merged_at = Some (merged_at pr)\<rparr>"
    obtain reqs' res' where rec: "for_merged_prs gc repo merged_prs st1 = (reqs', res')"
      by (cases "for_merged_prs gc repo merged_prs st1")
    with Cons.prems Inr have "reqs = number pr # reqs'" by (simp add: st1_def)
    with Cons.IH [OF rec] show ?thesis by auto
  qed
qed

lemma in_window_merged_at:
  assumes "in_window s e pr"
  shows "\<exists>m t. merged_at pr = Some m \<and> strptime m = Inr t \<and> dt_le s t \<and> dt_le t e"
  using assms
  by (auto simp: in_window_def merged_time_def truthy_def split: option.splits if_splits sum.splits)

lemma force_merge_record_merged_at:
  "merged_at pr = Some m \<Longrightarrow>
     map_of (force_merge_record repo pr c) ''merged_at'' = Some (PStr (py m))"
  by (simp add: force_merge_record_def)

lemma ex_marker: "py_in (py ''FORCE_MERGE'') (body ex_comment)"
  by (simp add: ex_comment_def py_def code_point_def)

lemma ex_scan:
  "for_merged_prs ex_comments ex_repo [ex_inside, ex_inside']
     \<lparr>force_merged_prs = [], pr_merged_at = None\<rparr> =
   ([42, 43], Inr \<lparr>force_merged_prs = [force_merge_record ex_repo ex_inside ex_comment],
                   pr_merged_at = Some (Some ''2024-03-20T09:00:00Z'')\<rparr>)"
  by (simp add: ex_comments_def ex_inside_def ex_inside'_def ex_pr_def ex_marker)

lemma ex_collect:
  "collect 3 ex_api_two ex_comments ex_repo ex_start None =
     ([1, 2], [42, 43],
      Some (Inr \<lparr>force_merged_prs = [force_merge_record ex_repo ex_inside ex_comment],
                  pr_merged_at = Some (Some ''2024-03-20T09:00:00Z'')\<rparr>))"
  by (simp add: collect_def ex_enddate ex_api_two_run ex_scan del: for_merged_prs.simps)

text \<open>
  C6. The loop over the comments of a pull request appends one record for each comment
  whose body contains \<open>FORCE_MERGE\<close> as a substring, in the order of the comments, and
  nothing for the others; so does the scan of all the pull requests that were fetched,
  when it returns. A body \<open>please FORCE_MERGE this\<close> gives a record, a body
  \<open>force_merge\<close> gives none.
\<close>

theorem force_merge_marker:
  "for_comments repo pr comments acc =
     acc @ map (force_merge_record repo pr)
             (filter (\<lambda>c. \<exists>p q. body c = p @ py ''FORCE_MERGE'' @ q) comments) \<and>
   (for_merged_prs get_comments repo merged_prs st = (reqs, Inr st') \<longrightarrow>
      force_merged_prs st' = force_merged_prs st @
        concat (map (\<lambda>pr. map (force_merge_record repo pr)
                  (filter (\<lambda>c. \<exists>p q. body c = p @ py ''FORCE_MERGE'' @ q)
                     (comments_of get_comments (number pr)))) merged_prs)) \<and>
   for_comments repo pr [c\<lparr>body := py ''please FORCE_MERGE this''\<rparr>] [] =
     [force_merge_record repo pr (c\<lparr>body := py ''please FORCE_MERGE this''\<rparr>)] \<and>
   for_comments repo pr [c\<lparr>body := py ''force_merge''\<rparr>] [] = []"
proof (intro conjI impI)
  show "for_comments repo pr comments acc =
     acc @ map (force_merge_record repo pr)
             (filter (\<lambda>c. \<exists>p q. body c = p @ py ''FORCE_MERGE'' @ q) comments)"
    by (simp add: for_comments_eq py_in_iff)
next
  assume "for_merged_prs get_comments repo merged_prs st = (reqs, Inr st')"
  from for_merged_prs_Inr [OF this]
  show "force_merged_prs st' = force_merged_prs st @
        concat (map (\<lambda>pr. map (force_merge_record repo pr)
                  (filter (\<lambda>c. \<exists>p q. body c = p @ py ''FORCE_MERGE'' @ q)
                     (comments_of get_comments (number pr)))) merged_prs)"
    by (simp add: py_in_iff)
next
  have "py_in (py ''FORCE_MERGE'') (py ''please FORCE_MERGE this'')"
    by (simp add: py_def code_point_def)
  then show "for_comments repo pr [c\<lparr>body := py ''please FORCE_MERGE this''\<rparr>] [] =
     [force_merge_record repo pr (c\<lparr>body := py ''please FORCE_MERGE this''\<rparr>)]"
    by simp
next
  have "\<not> py_in (py ''FORCE_MERGE'') (py ''force_merge'')"
    by (simp add: py_def code_point_def)
  then show "for_comments repo pr [c\<lparr>body := py ''force_merge''\<rparr>] [] = []"
    by simp
qed

theorem force_merge_marker_witness:
  "for_merged_prs ex_comments ex_repo [ex_inside, ex_inside']
     \<lparr>force_merged_prs = [], pr_merged_at = None\<rparr> =
   ([42, 43], Inr \<lparr>force_merged_prs = [force_merge_record ex_repo ex_inside ex_comment],
                   pr_merged_at = Some (Some ''2024-03-20T09:00:00Z'')\<rparr>) \<and>
   [force_merge_record ex_repo ex_inside ex_comment] =
     concat (map (\<lambda>pr. map (force_merge_record ex_repo pr)
                  (filter (\<lambda>c. \<exists>p q. body c = p @ py ''FORCE_MERGE'' @ q)
                     (comments_of ex_comments (number pr)))) [ex_inside, ex_inside'])"
  using force_merge_marker [where get_comments = ex_comments and repo = ex_repo
      and merged_prs = "[ex_inside, ex_inside']"
      and st = "\<lparr>force_merged_prs = [], pr_merged_at = None\<rparr>"
      and reqs = "[42, 43]"
      and st' = "\<lparr>force_merged_prs = [force_merge_record ex_repo ex_inside ex_comment],
                   pr_merged_at = Some (Some ''2024-03-20T09:00:00Z'')\<rparr>", THEN conjunct2, THEN conjunct1]
    ex_scan
  by simp

text \<open>
  C7. In every run, the comments are requested only for pull requests that the fetcher has
  returned, each of which is in the window; and every record of the collection is built
  from such a pull request, its \<open>merged_at\<close> entry being a timestamp between the start and
  the resolved end.
\<close>

theorem collect_only_in_window:
  assumes "collect fuel api get_comments repo start_date end_date = (pages, reqs, res)"
  shows "(\<forall>n \<in> set reqs. \<exists>e merged_prs pr.
            calculate_enddate_if_needed start_date end_date = Inr e \<and>
            get_merged_prs fuel api start_date e = (pages, Some (Inr merged_prs)) \<and>
            pr \<in> set merged_prs \<and> number pr = n \<and> in_window start_date e pr) \<and>
         (\<forall>st. res = Some (Inr st) \<longrightarrow>
            (\<forall>r \<in> set (force_merged_prs st). \<exists>e pr c m t.
               calculate_enddate_if_needed start_date end_date = Inr e \<and>
               r = force_merge_record repo pr c \<and> in_window start_date e pr \<and>
               map_of r ''merged_at'' = Some (PStr (py m)) \<and> strptime m = Inr t \<and>
               dt_le start_date t \<and> dt_le t e))"
proof (cases "calculate_enddate_if_needed start_date end_date")
  case (Inl err)
  with assms show ?thesis by (auto simp: collect_def)
next
  case e: (Inr e)
  obtain pages' fres where f: "get_merged_prs fuel api start_date e = (pages', fres)"
    by (cases "get_merged_prs fuel api start_date e")
  show ?thesis
  proof (cases fres)
    case None
    with assms e f show ?thesis by (auto simp: collect_def)
  next
    case (Some r)
    show ?thesis
    proof (cases r)
      case (Inl err)
      with assms e f Some show ?thesis by (auto simp: collect_def)
    next
      case (Inr merged_prs)
      define st0 where "st0 = \<lparr>force_merged_prs = [], pr_merged_at = None\<rparr>"
      obtain reqs' res' where sc: "for_merged_prs get_comments repo merged_prs st0 = (reqs', res')"
        by (cases "for_merged_prs get_comments repo merged_prs st0")
      from assms e f Some Inr sc have eqs: "pages = pages'" "reqs = reqs'" "res = Some res'"
        by (simp_all add: collect_def st0_def)
      from f Some Inr eqs have run: "get_merged_prs fuel api start_date e = (pages, Some (Inr merged_prs))"
        by simp
      have win: "\<forall>pr \<in> set merged_prs. in_window start_date e pr"
        using get_merged_prs_in_window [OF run] .
      have "\<forall>n \<in> set reqs. \<exists>pr. pr \<in> set merged_prs \<and> number pr = n \<and> in_window start_date e pr"
        using for_merged_prs_requests [OF sc] win eqs by auto
      then have part1: "\<forall>n \<in> set reqs. \<exists>e merged_prs pr.
            calculate_enddate_if_needed start_date end_date = Inr e \<and>
            get_merged_prs fuel api start_date e = (pages, Some (Inr merged_prs)) \<and>
            pr \<in> set merged_prs \<and> number pr = n \<and> in_window start_date e pr"
        using e run by blast
      have part2: "\<exists>e pr c m t.
               calculate_enddate_if_needed start_date end_date = Inr e \<and>
               r = force_merge_record repo pr c \<and> in_window start_date e pr \<and>
               map_of r ''merged_at'' = Some (PStr (py m)) \<and> strptime m = Inr t \<and>
               dt_le start_date t \<and> dt_le t e"
        if st: "res = Some (Inr st)" and r: "r \<in> set (force_merged_prs st)" for st r
      proof -
        from st eqs sc have "for_merged_prs get_comments repo merged_prs st0 = (reqs', Inr st)"
          by simp
        from for_merged_prs_Inr [OF this] r
        obtain pr c where pr: "pr \<in> set merged_prs" and rec: "r = force_merge_record repo pr c"
          by (auto simp: st0_def)
        from pr win have w: "in_window start_date e pr" by simp
        from in_window_merged_at [OF w] obtain m t where
          m: "merged_at pr = Some m" "strptime m = Inr t" "dt_le start_date t" "dt_le t e"
          by blast
        with force_merge_record_merged_at [OF m(1), of repo c] rec w e show ?thesis by blast
      qed
      from part1 part2 show ?thesis by blast
    qed
  qed
qed

theorem collect_only_in_window_witness:
  "collect 3 ex_api_two ex_comments ex_repo ex_start None =
     ([1, 2], [42, 43],
      Some (Inr \<lparr>force_merged_prs = [force_merge_record ex_repo ex_inside ex_comment],
                  pr_merged_at = Some (Some ''2024-03-20T09:00:00Z'')\<rparr>)) \<and>
   (\<exists>e pr c m t.
      calculate_enddate_if_needed ex_start None = Inr e \<and>
      force_merge_record ex_repo ex_inside ex_comment = force_merge_record ex_repo pr c \<and>
      in_window ex_start e pr \<and>
      map_of (force_merge_record ex_repo ex_inside ex_comment) ''merged_at'' = Some (PStr (py m)) \<and>
      strptime m = Inr t \<and> dt_le ex_start t \<and> dt_le t e)"
  using collect_only_in_window [OF ex_collect] ex_collect by simp

section \<open>The report\<close>

lemma str_int_42: "str_int 42 = ''42''"
  by (simp add: str_int_def str_nat.simps [of 42] str_nat.simps [of 4] digit_char_def)

text \<open>
  C1 fails on the code. The pull request 42, merged on 2024-03-15, has a comment with the
  marker; the pull request 43, merged on 2024-03-20, is scanned after it. The text report
  of a run that is not verbose ends the first line of the record of 42 with 2024-03-20:
  the date is taken from the variable \<open>pr_merged_at\<close>, which the scan left at the last
  pull request, and not from the record.
\<close>

theorem text_report_prints_last_merge_date:
  "map_of (force_merge_record ex_repo ex_inside ex_comment) ''merged_at'' =
     Some (PStr (py ''2024-03-15T12:00:00Z'')) \<and>
   main 3 ex_api_two ex_comments ex_repo ex_start None False False =
     Some (Inr (print (newline # py ''Force-Merged PRs:'')
              @ print (py ''acme/widgets#42: alice - Fix @ 2024-03-20'')
              @ print (py ''Comment by bob: FORCE_MERGE: ci flaky'')
              @ print (py ''URL: https://example.test/pull'' @ [newline])))"
proof -
  have "main 3 ex_api_two ex_comments ex_repo ex_start None False False =
      (case text_blocks (Some (Some ''2024-03-20T09:00:00Z''))
              [force_merge_record ex_repo ex_inside ex_comment] of
         Inl e \<Rightarrow> Some (Inl e)
       | Inr out \<Rightarrow> Some (Inr (print (newline # py ''Force-Merged PRs:'') @ out)))"
    by (simp add: main_def ex_collect report_def split: sum.splits)
  then show ?thesis
    by (simp add: text_block_def getitem_def force_merge_record_def format_val_def str_int_42
        split_T_0_def ex_inside_def ex_pr_def ex_comment_def ex_repo_def py_def code_point_def)
qed

section \<open>The JSON report\<close>

lemma digit_val_digit_char: "k < 10 \<Longrightarrow> digit_val (digit_char k) = k"
proof -
  assume "k < 10"
  then have "k = 0 \<or> k = 1 \<or> k = 2 \<or> k = 3 \<or> k = 4 \<or> k = 5 \<or> k = 6 \<or> k = 7 \<or> k = 8 \<or> k = 9"
    by arith
  then show ?thesis by (elim disjE) (simp_all add: digit_val_def digit_char_def)
qed

lemma is_digit_digit_char: "k < 10 \<Longrightarrow> is_digit (digit_char k)"
proof -
  assume "k < 10"
  then have "k = 0 \<or> k = 1 \<or> k = 2 \<or> k = 3 \<or> k = 4 \<or> k = 5 \<or> k = 6 \<or> k = 7 \<or> k = 8 \<or> k = 9"
    by arith
  then show ?thesis by (elim disjE) (simp_all add: is_digit_def digit_char_def)
qed

lemma digit_char_zero: "k < 10 \<Longrightarrow> digit_char k = CHR ''0'' \<longleftrightarrow> k = 0"
proof -
  assume "k < 10"
  then have "k = 0 \<or> k = 1 \<or> k = 2 \<or> k = 3 \<or> k = 4 \<or> k = 5 \<or> k = 6 \<or> k = 7 \<or> k = 8 \<or> k = 9"
    by arith
  then show ?thesis by (elim disjE) (simp_all add: digit_char_def)
qed

lemma nat_of_digits_snoc: "nat_of_digits (ds @ [c]) = 10 * nat_of_digits ds + digit_val c"
  by (simp add: nat_of_digits_def)

lemma str_nat_0: "str_nat 0 = ''0''"
  by (simp add: str_nat.simps [of 0] digit_char_def)

lemma str_nat_digits:
  "str_nat n \<noteq> [] \<and> list_all is_digit (str_nat n) \<and> nat_of_digits (str_nat n) = n \<and>
   (hd (str_nat n) = CHR ''0'' \<longleftrightarrow> n = 0) \<and> (n = 0 \<longrightarrow> str_nat n = ''0'')"
proof (induction n rule: str_nat.induct)
  case (1 n)
  show ?case
  proof (cases "n < 10")
    case True
    then show ?thesis
      by (auto simp: str_nat.simps [of n] is_digit_digit_char digit_char_zero nat_of_digits_def
          digit_val_digit_char str_nat_0)
  next
    case False
    then have m: "n mod 10 < 10" and d: "n div 10 \<noteq> 0" by simp_all
    from False "1.IH" have IH: "str_nat (n div 10) \<noteq> []" "list_all is_digit (str_nat (n div 10))"
      "nat_of_digits (str_nat (n div 10)) = n div 10"
      "hd (str_nat (n div 10)) = CHR ''0'' \<longleftrightarrow> n div 10 = 0"
      by simp_all
    from False have eq: "str_nat n = str_nat (n div 10) @ [digit_char (n mod 10)]"
      by (simp add: str_nat.simps [of n])
    from IH d False show ?thesis
      unfolding eq
      by (simp add: nat_of_digits_snoc is_digit_digit_char digit_val_digit_char)
  qed
qed

lemma json_int_str_int: "json_int (py (str_int i)) i"
proof (cases "i < 0")
  case True
  define n where "n = nat (- i)"
  from True have i: "i = - int n" and pos: "n \<noteq> 0" by (simp_all add: n_def)
  from str_nat_digits [of n] pos have "str_nat n \<noteq> []" "list_all is_digit (str_nat n)"
    "nat_of_digits (str_nat n) = n" "hd (str_nat n) \<noteq> CHR ''0''" by simp_all
  with True i show ?thesis
    unfolding json_int_def str_int_def n_def [symmetric]
    by (intro exI [of _ "str_nat n"]) simp
next
  case False
  define n where "n = nat i"
  from False have i: "i = int n" by (simp add: n_def)
  from str_nat_digits [of n] have "str_nat n \<noteq> []" "list_all is_digit (str_nat n)"
    "nat_of_digits (str_nat n) = n" "str_nat n = ''0'' \<or> hd (str_nat n) \<noteq> CHR ''0''" by auto
  with False i show ?thesis
    unfolding json_int_def str_int_def n_def [symmetric]
    by (intro exI [of _ "str_nat n"]) simp
qed

lemma hex_val_hex_digit: "k < 16 \<Longrightarrow> hex_val (hex_digit k) = Some k"
proof -
  assume "k < 16"
  then have "k = 0 \<or> k = 1 \<or> k = 2 \<or> k = 3 \<or> k = 4 \<or> k = 5 \<or> k = 6 \<or> k = 7 \<or> k = 8 \<or> k = 9
      \<or> k = 10 \<or> k = 11 \<or> k = 12 \<or> k = 13 \<or> k = 14 \<or> k = 15"
    by arith
  then show ?thesis
    by (elim disjE) (simp_all add: hex_val_def hex_digit_def py_def code_point_def)
qed

lemma hex4_digits:
  fixes n :: nat
  assumes "n < 65536"
  shows "((n div 4096 mod 16 * 16 + n div 256 mod 16) * 16 + n div 16 mod 16) * 16 + n mod 16 = n"
proof -
  define a where "a = n div 16"
  define b where "b = a div 16"
  define c where "c = b div 16"
  have b: "n div 256 = b" by (simp add: a_def b_def div_mult2_eq)
  have c: "n div 4096 = c" by (simp add: a_def b_def c_def div_mult2_eq)
  from assms have "c < 16" unfolding c [symmetric] by simp
  then have cm: "c mod 16 = c" by simp
  have "(c * 16 + b mod 16) = b" unfolding c_def by simp
  moreover have "b * 16 + a mod 16 = a" unfolding b_def by simp
  moreover have "a * 16 + n mod 16 = n" unfolding a_def by simp
  ultimately show ?thesis unfolding b c cm a_def [symmetric] by simp
qed

lemma hex4_val_u_escape:
  assumes "n < 65536"
  shows "\<exists>h. u_escape n = backslash # code_point CHR ''u'' # h \<and> hex4_val h = Some n"
proof -
  have d: "hex_val (hex_digit (k mod 16)) = Some (k mod 16)" for k
    by (rule hex_val_hex_digit) simp
  have "hex4_val [hex_digit (n div 4096 mod 16), hex_digit (n div 256 mod 16),
      hex_digit (n div 16 mod 16), hex_digit (n mod 16)] =
    Some (((n div 4096 mod 16 * 16 + n div 256 mod 16) * 16 + n div 16 mod 16) * 16 + n mod 16)"
    unfolding hex4_val_def by (simp only: list.map d list.case option.case)
  then have "hex4_val [hex_digit (n div 4096 mod 16), hex_digit (n div 256 mod 16),
      hex_digit (n div 16 mod 16), hex_digit (n mod 16)] = Some n"
    by (simp only: hex4_digits [OF assms])
  then show ?thesis unfolding u_escape_def by blast
qed

lemma json_escapes_eval:
  "map_of json_escapes quote = Some quote"
  "map_of json_escapes backslash = Some backslash"
  "map_of json_escapes (code_point CHR ''n'') = Some 10"
  "map_of json_escapes (code_point CHR ''r'') = Some 13"
  "map_of json_escapes (code_point CHR ''t'') = Some 9"
  "map_of json_escapes (code_point CHR ''b'') = Some 8"
  "map_of json_escapes (code_point CHR ''f'') = Some 12"
  by (simp_all add: json_escapes_def quote_def backslash_def code_point_def)

lemma json_chars_escape_char:
  assumes "json_chars t s" and "c < 1114112"
  shows "json_chars (escape_char c @ t) (c # s)"
proof -
  consider "c = quote" | "c \<noteq> quote" "c = backslash"
    | "c = 10" | "c = 13" | "c = 9" | "c = 8" | "c = 12"
    | "c \<noteq> quote" "c \<noteq> backslash" "c \<noteq> 10" "c \<noteq> 13" "c \<noteq> 9" "c \<noteq> 8" "c \<noteq> 12"
      "c < 32 \<or> c > 126" "c < 65536"
    | "c \<noteq> quote" "c \<noteq> backslash" "c \<noteq> 10" "c \<noteq> 13" "c \<noteq> 9" "c \<noteq> 8" "c \<noteq> 12"
      "c < 32 \<or> c > 126" "\<not> c < 65536"
    | "c \<noteq> quote" "c \<noteq> backslash" "c \<noteq> 10" "c \<noteq> 13" "c \<noteq> 9" "c \<noteq> 8" "c \<noteq> 12"
      "\<not> (c < 32 \<or> c > 126)"
    by blast
  then show ?thesis
  proof cases
    case 1
    then show ?thesis
      using chars_escape [OF json_escapes_eval(1) assms(1)] by (simp add: escape_char_def)
  next
    case 2
    then show ?thesis
      using chars_escape [OF json_escapes_eval(2) assms(1)] by (simp add: escape_char_def)
  next
    case 3
    then show ?thesis
      using chars_escape [OF json_escapes_eval(3) assms(1)]
      by (simp add: escape_char_def quote_def backslash_def)
  next
    case 4
    then show ?thesis
      using chars_escape [OF json_escapes_eval(4) assms(1)]
      by (simp add: escape_char_def quote_def backslash_def)
  next
    case 5
    then show ?thesis
      using chars_escape [OF json_escapes_eval(5) assms(1)]
      by (simp add: escape_char_def quote_def backslash_def)
  next
    case 6
    then show ?thesis
      using chars_escape [OF json_escapes_eval(6) assms(1)]
      by (simp add: escape_char_def quote_def backslash_def)
  next
    case 7
    then show ?thesis
      using chars_escape [OF json_escapes_eval(7) assms(1)]
      by (simp add: escape_char_def quote_def backslash_def)
  next
    case 8
    from hex4_val_u_escape [OF 8(9)] obtain h where
      h: "u_escape c = backslash # code_point CHR ''u'' # h" "hex4_val h = Some c" by blast
    from chars_unicode [OF h(2) assms(1)] 8 h(1) show ?thesis
      by (simp add: escape_char_def)
  next
    case 9
    define v where "v = c - 65536"
    define hi where "hi = 55296 + v div 1024 mod 1024"
    define lo where "lo = 56320 + v mod 1024"
    from 9(9) assms(2) have v: "v < 1048576" and c: "c = 65536 + v" by (simp_all add: v_def)
    from v have small: "v div 1024 mod 1024 = v div 1024" by simp
    have hi: "55296 \<le> hi" "hi < 56320" "hi < 65536" by (simp_all add: hi_def)
    have lo: "56320 \<le> lo" "lo < 57344" "lo < 65536" by (simp_all add: lo_def)
    have val: "c = 65536 + (hi - 55296) * 1024 + (lo - 56320)"
      unfolding c hi_def lo_def small by simp
    from hex4_val_u_escape [OF hi(3)] obtain h where
      h: "u_escape hi = backslash # code_point CHR ''u'' # h" "hex4_val h = Some hi" by blast
    from hex4_val_u_escape [OF lo(3)] obtain l where
      l: "u_escape lo = backslash # code_point CHR ''u'' # l" "hex4_val l = Some lo" by blast
    from chars_surrogates [OF h(2) l(2) hi(1,2) lo(1,2) val assms(1)] 9 h(1) l(1)
    show ?thesis
      by (simp add: escape_char_def hi_def [symmetric] lo_def [symmetric] v_def [symmetric])
  next
    case 10
    then have "32 \<le> c" by simp
    from chars_plain [OF this assms(2) 10(1,2) assms(1)] 10 show ?thesis
      by (simp add: escape_char_def)
  qed
qed

lemma json_chars_escaped: "valid_str s \<Longrightarrow> json_chars (concat (map escape_char s)) s"
  by (induction s) (simp_all add: chars_Nil json_chars_escape_char valid_str_def)

lemma valid_str_py: "valid_str (py s)"
proof -
  have "code_point c < 1114112" for c
    unfolding code_point_def by (rule less_trans [OF nat_of_char_less_256]) simp
  then show ?thesis by (simp add: valid_str_def py_def list_all_iff)
qed

lemma valid_str_append: "valid_str (a @ b) \<longleftrightarrow> valid_str a \<and> valid_str b"
  by (simp add: valid_str_def)

lemma json_ws_newline_indent: "json_ws (newline_indent level)"
  by (auto simp: json_ws_def newline_indent_def newline_def code_point_def)

lemma json_ws_simps: "json_ws []" "json_ws (py '' '')" "json_ws [newline]"
  by (simp_all add: json_ws_def newline_def py_def code_point_def)

lemma json_value_encode_val: "valid_val v \<Longrightarrow> json_value (encode_val v) (json_of_val v)"
proof (cases v)
  case PNone
  then show ?thesis by (simp add: encode_val_def json_of_val_def value_null)
next
  case (PInt i)
  then show ?thesis
    by (simp add: encode_val_def json_of_val_def value_number json_int_str_int)
next
  case (PStr s)
  assume "valid_val v"
  with PStr have "valid_str s" by (simp add: valid_val_def)
  from value_string [OF json_chars_escaped [OF this]] PStr show ?thesis
    by (simp add: encode_val_def json_of_val_def encode_basestring_ascii_def)
qed

lemma join_Cons: "xs \<noteq> [] \<Longrightarrow> join sep (x # xs) = x @ sep @ join sep xs"
  by (cases xs) simp_all

lemma json_members_items:
  "d \<noteq> [] \<Longrightarrow> valid_dict d \<Longrightarrow>
     json_members
       (newline_indent a @ join (py '','' @ newline_indent a) (map encode_item d) @ newline_indent b)
       (map (\<lambda>kv. (py (fst kv), json_of_val (snd kv))) d)"
proof (induction d rule: list_nonempty_induct)
  case (single kv)
  then have v: "valid_val (snd kv)" by (simp add: valid_dict_def)
  from members_one [OF json_ws_newline_indent [of a] json_chars_escaped [OF valid_str_py [of "fst kv"]]
      json_ws_simps(1) json_ws_simps(2) json_value_encode_val [OF v]
      json_ws_newline_indent [of b]]
  show ?case by (simp add: encode_item_def encode_basestring_ascii_def py_append py_Cons py_Nil)
next
  case (cons kv d)
  then have v: "valid_val (snd kv)" and d: "valid_dict d" by (simp_all add: valid_dict_def)
  from members_more [OF json_ws_newline_indent [of a] json_chars_escaped [OF valid_str_py [of "fst kv"]]
      json_ws_simps(1) json_ws_simps(2) json_value_encode_val [OF v]
      json_ws_simps(1) cons.IH [OF d]]
  show ?case using cons.hyps
    by (simp add: join_Cons encode_item_def encode_basestring_ascii_def py_append py_Cons py_Nil)
qed

lemma json_value_encode_dict:
  "valid_dict d \<Longrightarrow> json_value (encode_dict level d) (json_of_dict d)"
proof (cases "d = []")
  case True
  from value_empty_object [OF json_ws_simps(1)] True show ?thesis
    by (simp add: encode_dict_def json_of_dict_def py_append py_Cons py_Nil)
next
  case False
  assume "valid_dict d"
  from value_object [OF json_members_items [OF False this, of "level + 1" level]] False
  show ?thesis by (simp add: encode_dict_def json_of_dict_def)
qed

lemma json_elements_dicts:
  "ds \<noteq> [] \<Longrightarrow> list_all valid_dict ds \<Longrightarrow>
     json_elements
       (newline_indent a @ join (py '','' @ newline_indent a) (map (encode_dict a) ds) @ newline_indent b)
       (map json_of_dict ds)"
proof (induction ds rule: list_nonempty_induct)
  case (single d)
  then have d: "valid_dict d" by simp
  from elements_one [OF json_ws_newline_indent [of a] json_value_encode_dict [OF d, of a]
      json_ws_newline_indent [of b]]
  show ?case by simp
next
  case (cons d ds)
  then have d: "valid_dict d" and ds: "list_all valid_dict ds" by simp_all
  from elements_more [OF json_ws_newline_indent [of a] json_value_encode_dict [OF d, of a]
      json_ws_simps(1) cons.IH [OF ds]]
  show ?case using cons.hyps by (simp add: join_Cons)
qed

lemma json_value_encode_list:
  "list_all valid_dict ds \<Longrightarrow> json_value (encode_list level ds) (JArr (map json_of_dict ds))"
proof (cases "ds = []")
  case True
  from value_empty_array [OF json_ws_simps(1)] True show ?thesis
    by (simp add: encode_list_def py_append py_Cons py_Nil)
next
  case False
  assume "list_all valid_dict ds"
  from value_array [OF json_elements_dicts [OF False this, of "level + 1" level]] False
  show ?thesis by (simp add: encode_list_def)
qed

lemma json_text_print_dumps:
  assumes "list_all valid_dict ds"
  shows "json_text (print (dumps ds)) (JArr (map json_of_dict ds))"
  unfolding json_text_def print_def dumps_def
  using json_value_encode_list [OF assms, of 0] json_ws_simps(1,3)
  by (intro exI [of _ "[]"] exI [of _ "encode_list 0 ds"] exI [of _ "[newline]"]) simp

lemma force_merge_record_fields:
  "\<exists>ms. json_of_dict (force_merge_record repo pr c) = JObj ms \<and> map fst ms = map py documented_fields"
  by (simp add: json_of_dict_def force_merge_record_def documented_fields_def)

lemma valid_force_merge_record:
  assumes "valid_str repo" "valid_pull_request pr" "valid_comment c"
  shows "valid_dict (force_merge_record repo pr c)"
  using assms
  by (simp add: valid_dict_def valid_val_def force_merge_record_def valid_pull_request_def
      valid_comment_def valid_str_py split: option.splits)

lemma get_merged_prs_items:
  assumes "get_merged_prs fuel api s e = (pages, Some (Inr merged_prs))"
    and "pr \<in> set merged_prs"
  shows "\<exists>p. pr \<in> set (items_of api p)"
  using fetch_loop_result [OF assms(1) [unfolded get_merged_prs_def]] assms(2) by auto

lemma collect_records:
  assumes "collect fuel api get_comments repo start_date end_date = (pages, reqs, Some (Inr st))"
    and "r \<in> set (force_merged_prs st)"
  shows "\<exists>p pr c. pr \<in> set (items_of api p) \<and> c \<in> set (comments_of get_comments (number pr)) \<and>
           r = force_merge_record repo pr c"
proof -
  from assms(1) obtain e merged_prs where
    run: "get_merged_prs fuel api start_date e = (pages, Some (Inr merged_prs))"
    and sc: "for_merged_prs get_comments repo merged_prs \<lparr>force_merged_prs = [], pr_merged_at = None\<rparr> =
      (reqs, Inr st)"
    by (auto simp: collect_def split: sum.splits option.splits prod.splits)
  from for_merged_prs_Inr [OF sc] assms(2) obtain pr c where
    "pr \<in> set merged_prs" "c \<in> set (comments_of get_comments (number pr))"
    "r = force_merge_record repo pr c"
    by auto
  with get_merged_prs_items [OF run] show ?thesis by blast
qed

lemma collect_records_valid:
  assumes "collect fuel api get_comments repo start_date end_date = (pages, reqs, Some (Inr st))"
    and "valid_str repo" "valid_api api" "valid_comments_api get_comments"
  shows "list_all valid_dict (force_merged_prs st)"
proof -
  have "valid_dict r" if "r \<in> set (force_merged_prs st)" for r
  proof -
    from collect_records [OF assms(1) that] obtain p pr c where
      pr: "pr \<in> set (items_of api p)" and c: "c \<in> set (comments_of get_comments (number pr))"
      and r: "r = force_merge_record repo pr c" by blast
    from pr assms(3) have "valid_pull_request pr" by (auto simp: valid_api_def list_all_iff)
    moreover from c assms(4) have "valid_comment c"
      by (auto simp: valid_comments_api_def list_all_iff)
    ultimately show ?thesis unfolding r using assms(2) by (intro valid_force_merge_record)
  qed
  then show ?thesis by (simp add: list_all_iff)
qed

lemma collect_records_fields:
  assumes "collect fuel api get_comments repo start_date end_date = (pages, reqs, Some (Inr st))"
  shows "list_all (\<lambda>obj. \<exists>ms. obj = JObj ms \<and> map fst ms = map py documented_fields)
           (map json_of_dict (force_merged_prs st))"
proof -
  have "\<exists>ms. json_of_dict r = JObj ms \<and> map fst ms = map py documented_fields"
    if "r \<in> set (force_merged_prs st)" for r
    using collect_records [OF assms that] force_merge_record_fields by blast
  then show ?thesis by (simp add: list_all_iff)
qed

lemma json_array_of_objects_dumps:
  assumes "collect fuel api get_comments repo start_date end_date = (pages, reqs, Some (Inr st))"
    and "valid_str repo" "valid_api api" "valid_comments_api get_comments"
  shows "json_array_of_objects (map py documented_fields) (print (dumps (force_merged_prs st)))"
  unfolding json_array_of_objects_def
  using json_text_print_dumps [OF collect_records_valid [OF assms]] collect_records_fields [OF assms(1)]
  by blast

lemma main_json_eq:
  "main fuel api get_comments repo start_date end_date True verbose =
     (case collect fuel api get_comments repo start_date end_date of
        (pages, reqs, None) \<Rightarrow> None
      | (pages, reqs, Some (Inl e)) \<Rightarrow> Some (Inl e)
      | (pages, reqs, Some (Inr st)) \<Rightarrow>
          Some (Inr ((if verbose then verbose_lines fuel api repo start_date end_date else [])
                     @ print (dumps (force_merged_prs st)))))"
  by (simp add: main_def report_def split: prod.splits option.splits sum.splits)

text \<open>
  A string with a quote, a backslash, a tabulator, a letter with an accent and an emoji, as
  \<open>json.dumps\<close> writes it: the short escapes, four hexadecimal digits for the letter, and a
  pair of surrogates for the emoji.
\<close>

lemma encode_basestring_ascii_eval:
  "encode_basestring_ascii [34, 92, 9, 233, 128640] =
     quote # backslash # quote # backslash # backslash # backslash # py ''t''
     @ backslash # py ''u00e9'' @ backslash # py ''ud83d'' @ backslash # py ''ude80'' @ [quote]"
  by (simp add: encode_basestring_ascii_def escape_char_def u_escape_def hex_digit_def
      quote_def backslash_def py_def code_point_def)

subsection \<open>The first character of a JSON text\<close>

lemma code_point_digit: "is_digit c \<Longrightarrow> code_point c \<in> set (py ''0123456789'')"
  by (auto simp: is_digit_def py_def)

lemma json_value_hd:
  assumes "json_value t v"
  shows "t \<noteq> [] \<and> hd t \<in> insert quote (set (py ''ntf-0123456789[{''))"
  using assms
proof (cases rule: json_value.cases)
  case (value_number i)
  then obtain ds where ds: "ds \<noteq> []" "list_all is_digit ds" "t = py ds \<or> t = py (CHR ''-'' # ds)"
    by (auto simp: json_int_def)
  then obtain d ds' where d: "ds = d # ds'" "is_digit d" by (cases ds) auto
  from code_point_digit [OF d(2)] ds(3) d(1) show ?thesis
    by (auto simp: py_def)
qed (simp_all add: py_def)

lemma json_text_hd:
  assumes "json_text s v"
  shows "s \<noteq> [] \<and> hd s \<in> {32, 9, 10, 13} \<union> insert quote (set (py ''ntf-0123456789[{''))"
proof -
  from assms obtain w1 t w2 where s: "s = w1 @ t @ w2" and w: "json_ws w1" and t: "json_value t v"
    unfolding json_text_def by blast
  from json_value_hd [OF t] have t': "t \<noteq> []" "hd t \<in> insert quote (set (py ''ntf-0123456789[{''))"
    by simp_all
  show ?thesis
  proof (cases w1)
    case Nil
    with s t' show ?thesis by (auto simp: hd_append)
  next
    case (Cons c w)
    with w have "c \<in> {32, 9, 10, 13}" by (simp add: json_ws_def)
    with s Cons show ?thesis by auto
  qed
qed

lemma not_json_text_F: "hd s = 70 \<Longrightarrow> \<not> json_text s v"
  using json_text_hd [of s v] by (auto simp: py_def code_point_def quote_def)

subsection \<open>The lines of the verbose mode\<close>

lemma str_nat_eval:
  "str_nat 0 = ''0''" "str_nat 1 = ''1''" "str_nat 2 = ''2''" "str_nat 3 = ''3''" "str_nat 9 = ''9''"
  "str_nat 12 = ''12''" "str_nat 15 = ''15''" "str_nat 20 = ''20''" "str_nat 23 = ''23''"
  "str_nat 31 = ''31''" "str_nat 59 = ''59''" "str_nat 2024 = ''2024''"
  "str_nat 999999 = ''999999''" "str_nat 43 = ''43''" "str_nat (Suc 0) = ''1''"
  "str_nat (Suc (Suc 0)) = ''2''"
  by (simp_all add: str_nat.simps digit_char_def)

lemma str_datetime_eval:
  "str_datetime ex_start = ''2024-03-01 00:00:00''"
  "str_datetime ex_end = ''2024-03-31 23:59:59.999999''"
  "str_datetime \<lparr>year = 2024, month = 3, day = 15, hour = 12, minute = 0, second = 0, microsecond = 0\<rparr>
     = ''2024-03-15 12:00:00''"
  "str_datetime \<lparr>year = 2024, month = 3, day = 20, hour = 9, minute = 0, second = 0, microsecond = 0\<rparr>
     = ''2024-03-20 09:00:00''"
  by (simp_all add: str_datetime_def zfill_def str_nat_eval ex_start_def ex_end_def)

lemma verbose_pr_timestamp:
  assumes "merged_time pr = Some t"
  shows "verbose_pr s e pr =
     print (py ((if dt_le s t \<and> dt_le t e then ''Adding PR '' else ''Skipping PR '')
                @ str_int (number pr) @ '' for '' @ str_datetime s @ '' <= ''
                @ str_datetime t @ '' <= '' @ str_datetime e))"
  using assms by (auto simp: verbose_pr_def merged_time_def split: if_splits sum.splits)

lemma ex_numbers: "number ex_inside = 42" "number ex_inside' = 43"
  by (simp_all add: ex_inside_def ex_inside'_def ex_pr_def)

lemma str_int_43: "str_int 43 = ''43''"
  by (simp add: str_int_def str_nat_eval)

lemma ex_verbose_pr:
  "verbose_pr ex_start ex_end ex_inside =
     print (py (''Adding PR 42 for 2024-03-01 00:00:00 <= 2024-03-15 12:00:00''
                @ '' <= 2024-03-31 23:59:59.999999''))"
  "verbose_pr ex_start ex_end ex_inside' =
     print (py (''Adding PR 43 for 2024-03-01 00:00:00 <= 2024-03-20 09:00:00''
                @ '' <= 2024-03-31 23:59:59.999999''))"
proof -
  have w: "dt_le ex_start \<lparr>year = 2024, month = 3, day = 15, hour = 12, minute = 0, second = 0, microsecond = 0\<rparr>"
    "dt_le \<lparr>year = 2024, month = 3, day = 15, hour = 12, minute = 0, second = 0, microsecond = 0\<rparr> ex_end"
    "dt_le ex_start \<lparr>year = 2024, month = 3, day = 20, hour = 9, minute = 0, second = 0, microsecond = 0\<rparr>"
    "dt_le \<lparr>year = 2024, month = 3, day = 20, hour = 9, minute = 0, second = 0, microsecond = 0\<rparr> ex_end"
    by (simp_all add: dt_le_def dt_key_def ex_start_def ex_end_def)
  show "verbose_pr ex_start ex_end ex_inside =
     print (py (''Adding PR 42 for 2024-03-01 00:00:00 <= 2024-03-15 12:00:00''
                @ '' <= 2024-03-31 23:59:59.999999''))"
    by (simp add: verbose_pr_timestamp [OF ex_inside_time] w ex_numbers str_int_42 str_datetime_eval)
  show "verbose_pr ex_start ex_end ex_inside' =
     print (py (''Adding PR 43 for 2024-03-01 00:00:00 <= 2024-03-20 09:00:00''
                @ '' <= 2024-03-31 23:59:59.999999''))"
    by (simp add: verbose_pr_timestamp [OF ex_inside'_time] w ex_numbers str_int_43 str_datetime_eval)
qed

lemma ex_verbose_fetch_loop:
  "verbose_fetch_loop 3 ex_api_two ex_start ex_end
     \<lparr>prs = [], page = Suc 0, merged_at_var = None, shouldContinue = True\<rparr> =
   verbose_pr ex_start ex_end ex_inside @ verbose_pr ex_start ex_end ex_inside'"
  by (simp add: fuel_3 ex_api_two_def ex_for_pr)

lemma ex_verbose_lines_run: "verbose_lines 3 ex_api_two ex_repo ex_start None = ex_verbose_lines"
proof -
  have "verbose_lines 3 ex_api_two ex_repo ex_start None =
     print (py ''Fetching merged PRs for repository '' @ ex_repo @ py '' from ''
            @ py (str_datetime ex_start) @ py '' to '' @ py (str_datetime ex_end) @ py ''...'')
     @ (verbose_pr ex_start ex_end ex_inside @ verbose_pr ex_start ex_end ex_inside')
     @ print (py ''Scanning '' @ py (str_nat (length [ex_inside, ex_inside'])) @ py '' merged PRs for FORCE_MERGE comments...'')"
    by (simp add: verbose_lines_def ex_enddate ex_verbose_fetch_loop ex_api_two_run)
  also have "\<dots> = ex_verbose_lines"
    by (simp add: ex_verbose_lines_def ex_verbose_pr str_datetime_eval str_nat_eval ex_repo_def
        print_def py_append [symmetric] del: append_assoc)
  finally show ?thesis .
qed

lemma ex_verbose_main:
  "main 3 ex_api_two ex_comments ex_repo ex_start None True True = Some (Inr ex_verbose_output)"
  by (simp add: main_def ex_collect report_def ex_verbose_lines_run ex_verbose_output_def)

lemma ex_verbose_output_hd: "ex_verbose_output \<noteq> [] \<and> hd ex_verbose_output = 70"
  by (simp add: ex_verbose_output_def ex_verbose_lines_def print_def py_def code_point_def)

lemma ex_verbose_not_json: "\<not> is_json_text ex_verbose_output"
proof
  assume "is_json_text ex_verbose_output"
  then obtain v where "json_text ex_verbose_output v" unfolding is_json_text_def ..
  from json_text_hd [OF this] ex_verbose_output_hd show False
    by (simp add: py_def code_point_def quote_def)
qed

lemma verbose_lines_hd:
  assumes "collect fuel api get_comments repo start_date end_date = (pages, reqs, Some (Inr st))"
  shows "hd (verbose_lines fuel api repo start_date end_date @ t) = 70"
proof -
  from assms obtain e where "calculate_enddate_if_needed start_date end_date = Inr e"
    by (auto simp: collect_def split: sum.splits)
  then show ?thesis
    by (simp add: verbose_lines_def print_def py_def code_point_def)
qed

subsection \<open>The output in JSON mode\<close>

text \<open>
  C8 fails for a verbose run. In JSON mode with \<open>verbose\<close> set, on the pull requests 42
  and 43, the run prints the line of line 91, a line for each of the two pull requests, the
  line of line 95 and then the array: the standard output begins with \<open>Fetching\<close> and is
  no JSON text, so no JSON array of objects.
\<close>

theorem verbose_json_output_not_json:
  "main 3 ex_api_two ex_comments ex_repo ex_start None True True = Some (Inr ex_verbose_output) \<and>
   \<not> is_json_text ex_verbose_output \<and>
   \<not> json_array_of_objects (map py documented_fields) ex_verbose_output"
proof -
  have "\<not> json_array_of_objects (map py documented_fields) ex_verbose_output"
    using ex_verbose_not_json by (auto simp: json_array_of_objects_def is_json_text_def)
  with ex_verbose_main ex_verbose_not_json show ?thesis by simp
qed

lemma ex_marker_unicode: "py_in (py ''FORCE_MERGE'') (body ex_comment_unicode)"
  by (simp add: ex_comment_unicode_def py_def code_point_def)

lemma ex_scan_unicode:
  "for_merged_prs ex_comments_unicode ex_repo [ex_inside, ex_inside']
     \<lparr>force_merged_prs = [], pr_merged_at = None\<rparr> =
   ([42, 43], Inr \<lparr>force_merged_prs = [force_merge_record ex_repo ex_inside ex_comment_unicode],
                   pr_merged_at = Some (Some ''2024-03-20T09:00:00Z'')\<rparr>)"
  by (simp add: ex_comments_unicode_def ex_inside_def ex_inside'_def ex_pr_def ex_marker_unicode)

lemma ex_collect_unicode:
  "collect 3 ex_api_two ex_comments_unicode ex_repo ex_start None =
     ([1, 2], [42, 43],
      Some (Inr \<lparr>force_merged_prs = [force_merge_record ex_repo ex_inside ex_comment_unicode],
                  pr_merged_at = Some (Some ''2024-03-20T09:00:00Z'')\<rparr>))"
  by (simp add: collect_def ex_enddate ex_api_two_run ex_scan_unicode del: for_merged_prs.simps)

lemma ex_valid:
  "valid_str ex_repo" "valid_api ex_api_two" "valid_comments_api ex_comments_unicode"
  by (simp_all add: ex_repo_def valid_str_py valid_api_def valid_comments_api_def items_of_def
      comments_of_def ex_api_two_def ex_comments_unicode_def ex_comment_unicode_def
      valid_pull_request_def valid_comment_def ex_inside_def ex_inside'_def ex_pr_def
      valid_str_append)
    (simp add: valid_str_def)

text \<open>
  C8, amended. Whenever \<open>main\<close> returns in JSON mode, what it has printed ends with the
  text that line 116 prints, before which are the lines of the verbose mode if \<open>verbose\<close>
  is set and nothing otherwise. The text of line 116 is a JSON text that denotes the array
  of the records of the collection, in their order, each as an object whose keys are the
  eight documented fields and whose values are those of the record. The whole standard
  output is a JSON text, and a JSON array of such objects, exactly when \<open>verbose\<close> is not
  set. The texts of the repository, the pull requests and the comments are Python strings,
  of code points below \<open>0x110000\<close>.
\<close>

theorem main_json_output:
  assumes "main fuel api get_comments repo start_date end_date True verbose = Some (Inr out)"
    and "valid_str repo" "valid_api api" "valid_comments_api get_comments"
  shows "\<exists>pages reqs st.
     collect fuel api get_comments repo start_date end_date = (pages, reqs, Some (Inr st)) \<and>
     out = (if verbose then verbose_lines fuel api repo start_date end_date else [])
           @ print (dumps (force_merged_prs st)) \<and>
     json_text (print (dumps (force_merged_prs st))) (JArr (map json_of_dict (force_merged_prs st))) \<and>
     json_array_of_objects (map py documented_fields) (print (dumps (force_merged_prs st))) \<and>
     (json_array_of_objects (map py documented_fields) out \<longleftrightarrow> \<not> verbose) \<and>
     (is_json_text out \<longleftrightarrow> \<not> verbose)"
proof -
  from assms(1) obtain pages reqs st where
    c: "collect fuel api get_comments repo start_date end_date = (pages, reqs, Some (Inr st))"
    and out: "out = (if verbose then verbose_lines fuel api repo start_date end_date else [])
           @ print (dumps (force_merged_prs st))"
    by (auto simp: main_json_eq split: prod.splits option.splits sum.splits)
  have t: "json_text (print (dumps (force_merged_prs st))) (JArr (map json_of_dict (force_merged_prs st)))"
    by (rule json_text_print_dumps [OF collect_records_valid [OF c assms(2-4)]])
  have a: "json_array_of_objects (map py documented_fields) (print (dumps (force_merged_prs st)))"
    by (rule json_array_of_objects_dumps [OF c assms(2-4)])
  have n: "\<not> json_text out v" if verbose for v
    using that verbose_lines_hd [OF c] out by (intro not_json_text_F) simp
  have "json_array_of_objects (map py documented_fields) out \<longleftrightarrow> \<not> verbose"
    using a n out by (auto simp: json_array_of_objects_def)
  moreover have "is_json_text out \<longleftrightarrow> \<not> verbose"
    using t n out by (auto simp: is_json_text_def)
  ultimately show ?thesis using c out t a by blast
qed

theorem main_json_output_witness:
  "main 3 ex_api_two ex_comments_unicode ex_repo ex_start None True False =
     Some (Inr (print (dumps [force_merge_record ex_repo ex_inside ex_comment_unicode]))) \<and>
   valid_str ex_repo \<and> valid_api ex_api_two \<and> valid_comments_api ex_comments_unicode \<and>
   json_text (print (dumps [force_merge_record ex_repo ex_inside ex_comment_unicode]))
     (JArr [json_of_dict (force_merge_record ex_repo ex_inside ex_comment_unicode)]) \<and>
   json_array_of_objects (map py documented_fields)
     (print (dumps [force_merge_record ex_repo ex_inside ex_comment_unicode]))"
proof -
  have m: "main 3 ex_api_two ex_comments_unicode ex_repo ex_start None True False =
     Some (Inr (print (dumps [force_merge_record ex_repo ex_inside ex_comment_unicode])))"
    by (simp add: main_json_eq ex_collect_unicode)
  from main_json_output [OF m ex_valid] m ex_valid show ?thesis
    by (simp add: ex_collect_unicode)
qed

end
